theory Spec2Isabelle
  imports Complex_Main
begin

section \<open>The quickhull routine of \<open>convhull_3d.h\<close>\<close>

text \<open>
  The development embeds \<open>convhull_3d_build\<close> and the helpers it calls
  (\<open>plane_3d\<close>, \<open>det_4x4\<close>, \<open>ismember\<close>, \<open>sort_float\<close>).

  Conventions of the embedding.
  \<^item> \<open>CH_FLOAT\<close> is read as an exact real number: every rounding step of the
    machine arithmetic is left out. The routine can divide by zero in three places. In
    \<open>absdist\<close> (an axis of spread zero) the quotient is an infinity or NaN, the sort
    keys made from it are compared by \<open>qsort\<close>, and the embedding keeps these values
    (type \<open>fl\<close>). In the normalisation of \<open>plane_3d\<close> (three collinear points) the
    machine's coefficients are NaN and the visibility test \<open>NaN > 0.0\<close> is false; the
    embedding has the quotient \<open>0\<close> there, and \<open>0 > 0\<close> is false as well. In
    \<open>meanp\<close> (exactly four points) the result is not used: the queue is empty.
  \<^item> \<open>rand()\<close> is a parameter \<open>rnd\<close>: \<open>rnd k\<close> is the value of the
    \<open>k\<close>-th call. \<open>RAND_MAX\<close> is a parameter as well.
  \<^item> The parallel arrays \<open>faces\<close>, \<open>cf\<close> and \<open>df\<close>, which the routine always
    resizes and compacts together, are one list of rows (\<open>vtx\<close>, \<open>cf\<close>, \<open>df\<close>);
    \<open>nFaces\<close> is the length of that list.
  \<^item> A read outside an allocated block is undefined behaviour in C; the embedding
    returns a \<open>fault\<close> at the places where the routine can perform one.
  \<^item> The allocation and release of the work buffers is not part of the embedding.
\<close>

subsection \<open>Constants\<close>

definition CH_NOISE_VAL :: real where
  "CH_NOISE_VAL = 1 / 10000000"

definition CH_MAX_NUM_FACES :: nat where
  "CH_MAX_NUM_FACES = 50000"

type_synonym ch_vertex = "real list"
  \<comment> \<open>the member \<open>v[3]\<close> of the struct\<close>

datatype fault = PointsOverrun | PPOverrun
  \<comment> \<open>a read past the end of \<open>points\<close>, a read past the end of \<open>pp\<close>\<close>

subsection \<open>\<open>det_4x4\<close>, \<open>plane_3d\<close>, \<open>ismember\<close>\<close>

definition det_4x4 :: "real list \<Rightarrow> real" where
  "det_4x4 m =
    m ! 3 * m ! 6 * m ! 9 * m ! 12 - m ! 2 * m ! 7 * m ! 9 * m ! 12 -
    m ! 3 * m ! 5 * m ! 10 * m ! 12 + m ! 1 * m ! 7 * m ! 10 * m ! 12 +
    m ! 2 * m ! 5 * m ! 11 * m ! 12 - m ! 1 * m ! 6 * m ! 11 * m ! 12 -
    m ! 3 * m ! 6 * m ! 8 * m ! 13 + m ! 2 * m ! 7 * m ! 8 * m ! 13 +
    m ! 3 * m ! 4 * m ! 10 * m ! 13 - m ! 0 * m ! 7 * m ! 10 * m ! 13 -
    m ! 2 * m ! 4 * m ! 11 * m ! 13 + m ! 0 * m ! 6 * m ! 11 * m ! 13 +
    m ! 3 * m ! 5 * m ! 8 * m ! 14 - m ! 1 * m ! 7 * m ! 8 * m ! 14 -
    m ! 3 * m ! 4 * m ! 9 * m ! 14 + m ! 0 * m ! 7 * m ! 9 * m ! 14 +
    m ! 1 * m ! 4 * m ! 11 * m ! 14 - m ! 0 * m ! 5 * m ! 11 * m ! 14 -
    m ! 2 * m ! 5 * m ! 8 * m ! 15 + m ! 1 * m ! 6 * m ! 8 * m ! 15 +
    m ! 2 * m ! 4 * m ! 9 * m ! 15 - m ! 0 * m ! 6 * m ! 9 * m ! 15 -
    m ! 1 * m ! 4 * m ! 10 * m ! 15 + m ! 0 * m ! 5 * m ! 10 * m ! 15"

text \<open>
  \<open>plane_3d\<close>: \<open>p\<close> is the flat array of three points, \<open>pdiff\<close> the two edge
  vectors, \<open>pdiff_s i\<close> the two rows of \<open>pdiff\<close> without column \<open>i\<close>, \<open>c\<close> the
  signed minors divided by their Euclidean norm, \<open>d\<close> the offset through the first point.
\<close>

definition pdiff :: "real list \<Rightarrow> nat \<Rightarrow> nat \<Rightarrow> real" where
  "pdiff p i j = p ! ((i + 1) * 3 + j) - p ! (i * 3 + j)"

definition pdiff_s :: "real list \<Rightarrow> nat \<Rightarrow> nat \<Rightarrow> real list" where
  "pdiff_s p i j = map (pdiff p j) (filter (\<lambda>k. k \<noteq> i) [0, 1, 2])"

definition minor_det :: "real list \<Rightarrow> nat \<Rightarrow> real" where
  "minor_det p i =
     pdiff_s p i 0 ! 0 * pdiff_s p i 1 ! 1 - pdiff_s p i 1 ! 0 * pdiff_s p i 0 ! 1"

definition plane_c_raw :: "real list \<Rightarrow> real list" where
  "plane_c_raw p = [1 * minor_det p 0, (- 1) * minor_det p 1, 1 * minor_det p 2]"

definition norm_c :: "real list \<Rightarrow> real" where
  "norm_c c = sqrt (0 + (c ! 0)\<^sup>2 + (c ! 1)\<^sup>2 + (c ! 2)\<^sup>2)"

definition plane_3d :: "real list \<Rightarrow> real list \<times> real" where
  "plane_3d p =
     (let c0 = plane_c_raw p;
          c = map (\<lambda>ci. ci / norm_c c0) c0;
          d = 0 + - (p ! 0) * c ! 0 + - (p ! 1) * c ! 1 + - (p ! 2) * c ! 2
      in (c, d))"

definition ismember :: "nat list \<Rightarrow> nat list \<Rightarrow> nat list" where
  "ismember pLeft pRight = map (\<lambda>l. if l \<in> set pRight then 1 else 0) pLeft"

subsection \<open>Preprocessing: spread and perturbation\<close>

text \<open>The macros \<open>MAX\<close> and \<open>MIN\<close> (named \<open>MAX2\<close>, \<open>MIN2\<close> here).\<close>

definition MAX2 :: "real \<Rightarrow> real \<Rightarrow> real" where
  "MAX2 a b = (if a > b then a else b)"

definition MIN2 :: "real \<Rightarrow> real \<Rightarrow> real" where
  "MIN2 a b = (if a < b then a else b)"

definition span :: "ch_vertex list \<Rightarrow> nat \<Rightarrow> nat \<Rightarrow> real" where
  "span in_vertices nVert j =
     (let max_p = foldl (\<lambda>m i. MAX2 m (in_vertices ! i ! j)) (223 / 10 ^ 15) [0..<nVert];
          min_p = foldl (\<lambda>m i. MIN2 m (in_vertices ! i ! j)) 22300000000000 [0..<nVert]
      in max_p - min_p)"

definition noise :: "nat \<Rightarrow> nat \<Rightarrow> real" where
  "noise RAND_MAX r = CH_NOISE_VAL * real r / real RAND_MAX"

text \<open>
  Row \<open>i\<close> of \<open>points\<close>: the three coordinates with the noise of the calls
  \<open>3 i\<close>, \<open>3 i + 1\<close>, \<open>3 i + 2\<close> of \<open>rand()\<close>, then the homogeneous \<open>1\<close>.
\<close>

definition perturb :: "nat \<Rightarrow> (nat \<Rightarrow> nat) \<Rightarrow> ch_vertex list \<Rightarrow> nat \<Rightarrow> real list list" where
  "perturb RAND_MAX rnd in_vertices nVert =
     map (\<lambda>i. map (\<lambda>j. in_vertices ! i ! j + noise RAND_MAX (rnd (i * 3 + j))) [0, 1, 2] @ [1])
       [0..<nVert]"

subsection \<open>The mesh and the initial simplex\<close>

record face =
  vtx :: "nat list"
  cf :: "real list"
  df :: real

definition p_s :: "real list list \<Rightarrow> nat list \<Rightarrow> real list" where
  "p_s points f = concat (map (\<lambda>v. take 3 (points ! v)) f)"

definition new_face :: "real list list \<Rightarrow> nat list \<Rightarrow> face" where
  "new_face points f =
     (let (cfi, dfi) = plane_3d (p_s points f) in \<lparr>vtx = f, cf = cfi, df = dfi\<rparr>)"

definition initial_faces :: "real list list \<Rightarrow> face list" where
  "initial_faces points =
     map (\<lambda>i. new_face points (filter (\<lambda>a. a \<noteq> i) [0, 1, 2, 3])) [0, 1, 2, 3]"

definition A_of :: "real list list \<Rightarrow> nat list \<Rightarrow> nat \<Rightarrow> real list" where
  "A_of points f p = concat (map (\<lambda>v. points ! v) f) @ points ! p"

definition flip_face :: "face \<Rightarrow> face" where
  "flip_face f =
     f\<lparr>vtx := [vtx f ! 0, vtx f ! 2, vtx f ! 1], cf := map uminus (cf f), df := - df f\<rparr>"

definition orient_simplex_face :: "real list list \<Rightarrow> nat \<Rightarrow> face \<Rightarrow> face" where
  "orient_simplex_face points k f =
     (let v = det_4x4 (A_of points (vtx f) k) in if v < 0 then flip_face f else f)"

definition simplex :: "real list list \<Rightarrow> face list" where
  "simplex points =
     map (\<lambda>k. orient_simplex_face points k (initial_faces points ! k)) [0, 1, 2, 3]"

subsection \<open>The queue of pending points\<close>

text \<open>
  A value of \<open>CH_FLOAT\<close> that need not be finite: a real number, an infinity or NaN,
  with the quotient of two finite numbers (the divisor \<open>+0\<close> when it is zero),
  \<open>pow(x, 2.0)\<close>, the sum and the comparison \<open><\<close> of IEEE arithmetic; \<open>a > b\<close> is
  \<open>b < a\<close>.
\<close>

datatype fl = Fin (fin: real) | PInf | MInf | NaN

definition fl_div :: "real \<Rightarrow> real \<Rightarrow> fl" where
  "fl_div a b =
     (if b \<noteq> 0 then Fin (a / b) else if a = 0 then NaN else if 0 < a then PInf else MInf)"

fun fl_pow2 :: "fl \<Rightarrow> fl" where
  "fl_pow2 (Fin a) = Fin (a\<^sup>2)"
| "fl_pow2 PInf = PInf"
| "fl_pow2 MInf = PInf"
| "fl_pow2 NaN = NaN"

fun fl_add :: "fl \<Rightarrow> fl \<Rightarrow> fl" where
  "fl_add (Fin a) (Fin b) = Fin (a + b)"
| "fl_add NaN b = NaN"
| "fl_add a NaN = NaN"
| "fl_add PInf MInf = NaN"
| "fl_add MInf PInf = NaN"
| "fl_add PInf b = PInf"
| "fl_add a PInf = PInf"
| "fl_add MInf b = MInf"
| "fl_add a MInf = MInf"

fun fl_less :: "fl \<Rightarrow> fl \<Rightarrow> bool" where
  "fl_less NaN b = False"
| "fl_less a NaN = False"
| "fl_less (Fin a) (Fin b) = (a < b)"
| "fl_less a MInf = False"
| "fl_less MInf b = True"
| "fl_less PInf b = False"
| "fl_less a PInf = True"

text \<open>
  \<open>meanp\<close> is the mean of the rows \<open>d + 1, \<dots>, nVert - 1\<close> of \<open>points\<close> (the points
  outside the initial simplex), \<open>absdist\<close> the offset from it divided by the spread of
  the axis, \<open>reldist\<close> the sum of the squares, accumulated from \<open>0\<close>.
\<close>

definition meanp :: "real list list \<Rightarrow> nat \<Rightarrow> nat \<Rightarrow> real" where
  "meanp points nVert j = foldl (\<lambda>m i. m + points ! i ! j) 0 [4..<nVert] / real (nVert - 3 - 1)"

definition absdist :: "ch_vertex list \<Rightarrow> real list list \<Rightarrow> nat \<Rightarrow> nat \<Rightarrow> nat \<Rightarrow> fl" where
  "absdist in_vertices points nVert k j =
     fl_div (points ! (k + 4) ! j - meanp points nVert j) (span in_vertices nVert j)"

definition reldist :: "ch_vertex list \<Rightarrow> real list list \<Rightarrow> nat \<Rightarrow> nat \<Rightarrow> fl" where
  "reldist in_vertices points nVert i =
     fl_add (fl_add (fl_add (Fin 0) (fl_pow2 (absdist in_vertices points nVert i 0)))
                    (fl_pow2 (absdist in_vertices points nVert i 1)))
            (fl_pow2 (absdist in_vertices points nVert i 2))"

text \<open>
  The comparison functions of \<open>sort_float\<close>, on pairs of a value and its position. A
  comparison with NaN is false both ways, so that the result is \<open>0\<close>.
\<close>

definition cmp_asc_float :: "fl \<times> nat \<Rightarrow> fl \<times> nat \<Rightarrow> int" where
  "cmp_asc_float a1 a2 =
     (if fl_less (fst a1) (fst a2) then - 1 else if fl_less (fst a2) (fst a1) then 1 else 0)"

definition cmp_desc_float :: "fl \<times> nat \<Rightarrow> fl \<times> nat \<Rightarrow> int" where
  "cmp_desc_float a1 a2 =
     (if fl_less (fst a2) (fst a1) then - 1 else if fl_less (fst a1) (fst a2) then 1 else 0)"

text \<open>
  \<open>qsort\<close> of the C library, as the stable insertion sort driven by the comparison
  function: an element goes in front of the first element that it does not compare
  greater than. The C library leaves the order of elements that compare equal open; the
  embedding keeps them in the order they had.
\<close>

fun qsort_insert :: "('a \<Rightarrow> 'a \<Rightarrow> int) \<Rightarrow> 'a \<Rightarrow> 'a list \<Rightarrow> 'a list" where
  "qsort_insert cmp x [] = [x]"
| "qsort_insert cmp x (y # ys) =
     (if cmp x y \<le> 0 then x # y # ys else y # qsort_insert cmp x ys)"

definition qsort :: "('a \<Rightarrow> 'a \<Rightarrow> int) \<Rightarrow> 'a list \<Rightarrow> 'a list" where
  "qsort cmp data = foldr (qsort_insert cmp) data []"

definition sort_float :: "fl list \<Rightarrow> bool \<Rightarrow> fl list \<times> nat list" where
  "sort_float in_vec descendFLAG =
     (let data = zip in_vec [0..<length in_vec];
          sorted_data = (if descendFLAG then qsort cmp_desc_float data
                         else qsort cmp_asc_float data)
      in (map fst sorted_data, map snd sorted_data))"

definition pleft_init :: "ch_vertex list \<Rightarrow> real list list \<Rightarrow> nat \<Rightarrow> nat list" where
  "pleft_init in_vertices points nVert =
     (let (desReldist, ind) =
            sort_float (map (reldist in_vertices points nVert) [0..<nVert - 3 - 1]) True
      in map (\<lambda>i. i + 3 + 1) ind)"




subsection \<open>One pass of the main loop\<close>

definition points_cf :: "real list \<Rightarrow> face \<Rightarrow> real" where
  "points_cf points_s f = foldl (\<lambda>acc k. acc + points_s ! k * cf f ! k) 0 [0, 1, 2]"

definition visible_ind :: "real list \<Rightarrow> face \<Rightarrow> bool" where
  "visible_ind points_s f \<longleftrightarrow> points_cf points_s f + df f > 0"

text \<open>
  The horizon edges contributed by one visible face: \<open>f0\<close> flags the entries of each
  not-visible face that occur in the visible one, \<open>u\<close> keeps the faces with \<open>d - 1\<close>
  flags, and the edge is the flagged entries in the order of the not-visible face.
\<close>

definition f0_row :: "nat list \<Rightarrow> nat list \<Rightarrow> nat list" where
  "f0_row face_v g = ismember g (sort face_v)"

definition horizon_edge :: "nat list \<Rightarrow> nat list \<Rightarrow> nat list" where
  "horizon_edge face_v gVec = map fst (filter (\<lambda>(g, fl). fl \<noteq> 0) (zip gVec (f0_row face_v gVec)))"

definition horizon_of_visible :: "nat list list \<Rightarrow> nat list \<Rightarrow> nat list list" where
  "horizon_of_visible nonvisible_faces face_v =
     (let u = filter (\<lambda>g. sum_list (f0_row face_v g) = 3 - 1) nonvisible_faces
      in map (horizon_edge face_v) u)"

definition horizon :: "real list \<Rightarrow> face list \<Rightarrow> nat list list" where
  "horizon points_s mesh =
     (let visible = filter (visible_ind points_s) mesh;
          nonvisible_faces = map vtx (filter (\<lambda>f. \<not> visible_ind points_s f) mesh)
      in concat (map (\<lambda>f. horizon_of_visible nonvisible_faces (vtx f)) visible))"

text \<open>
  Adding the faces of the horizon. The result \<open>(True, [])\<close> stands for
  \<open>FUCKED = 1; nFaces = 0; break\<close>.
\<close>

fun add_faces :: "real list list \<Rightarrow> nat \<Rightarrow> nat list list \<Rightarrow> face list \<Rightarrow> bool \<times> face list" where
  "add_faces points i [] mesh = (False, mesh)"
| "add_faces points i (e # es) mesh =
     (let mesh' = mesh @ [new_face points (e @ [i])]
      in if length mesh' > CH_MAX_NUM_FACES then (True, []) else add_faces points i es mesh')"

text \<open>
  Orienting a new face. \<open>pp\<close> holds the numbers below \<open>nFaces\<close> that are not vertices
  of the face. \<open>ref_search\<close> is the loop \<open>while(detA==0.0)\<close>; its list argument is the
  part of \<open>pp\<close> from \<open>index\<close> on, and it returns the determinant together with what is
  left of \<open>pp\<close> after the last \<open>index++\<close>. The loop has no bound on \<open>index\<close>:
  when the list is used up the next read is past the end of \<open>pp\<close>, and when the
  candidate is not below \<open>nVert\<close> the read is past the end of \<open>points\<close>. After a flip the
  source refills \<open>A\<close> from \<open>pp[index]\<close> once more.
\<close>

definition pp_of :: "nat \<Rightarrow> nat list \<Rightarrow> nat list" where
  "pp_of nFaces face_k =
     map fst (filter (\<lambda>(h, m). m = 0) (zip [0..<nFaces] (ismember [0..<nFaces] (sort face_k))))"

fun ref_search :: "real list list \<Rightarrow> nat list \<Rightarrow> nat list \<Rightarrow> fault + real \<times> nat list" where
  "ref_search points face_k [] = Inl PPOverrun"
| "ref_search points face_k (c # rest) =
     (if c < length points then
        (let detA = det_4x4 (A_of points face_k c)
         in if detA = 0 then ref_search points face_k rest else Inr (detA, rest))
      else Inl PointsOverrun)"

definition orient_new_face :: "real list list \<Rightarrow> nat \<Rightarrow> face \<Rightarrow> fault + face" where
  "orient_new_face points nFaces f =
     (case ref_search points (vtx f) (pp_of nFaces (vtx f)) of
        Inl e \<Rightarrow> Inl e
      | Inr (detA, rest) \<Rightarrow>
          if detA < 0 then
            (case rest of
               [] \<Rightarrow> Inl PPOverrun
             | c # _ \<Rightarrow> if c < length points then Inr (flip_face f) else Inl PointsOverrun)
          else Inr f)"

fun orient_new_faces :: "real list list \<Rightarrow> nat \<Rightarrow> face list \<Rightarrow> fault + face list" where
  "orient_new_faces points nFaces [] = Inr []"
| "orient_new_faces points nFaces (f # fs) =
     (case orient_new_face points nFaces f of
        Inl e \<Rightarrow> Inl e
      | Inr f' \<Rightarrow>
          (case orient_new_faces points nFaces fs of
             Inl e \<Rightarrow> Inl e
           | Inr fs' \<Rightarrow> Inr (f' # fs')))"

text \<open>
  One pass for the point \<open>i\<close>. The result is a fault, or the flag \<open>FUCKED\<close> with the
  mesh after the pass.
\<close>

definition iteration :: "real list list \<Rightarrow> nat \<Rightarrow> face list \<Rightarrow> fault + bool \<times> face list" where
  "iteration points i mesh =
     (let points_s = take 3 (points ! i);
          num_visible_ind = length (filter (visible_ind points_s) mesh)
      in if num_visible_ind \<noteq> 0 then
           (let hor = horizon points_s mesh;
                kept = filter (\<lambda>f. \<not> visible_ind points_s f) mesh;
                start = length kept;
                (FUCKED, mesh1) = add_faces points i hor kept
            in case orient_new_faces points (length mesh1) (drop start mesh1) of
                 Inl e \<Rightarrow> Inl e
               | Inr oriented \<Rightarrow> Inr (FUCKED, take start mesh1 @ oriented))
         else Inr (False, mesh))"

subsection \<open>The main loop and the routine\<close>

fun main_loop :: "real list list \<Rightarrow> nat list \<Rightarrow> face list \<Rightarrow> fault + bool \<times> face list" where
  "main_loop points [] mesh = Inr (False, mesh)"
| "main_loop points (i # pleft) mesh =
     (case iteration points i mesh of
        Inl e \<Rightarrow> Inl e
      | Inr (FUCKED, mesh') \<Rightarrow>
          if FUCKED then Inr (True, mesh') else main_loop points pleft mesh')"

definition hull_output :: "bool \<times> face list \<Rightarrow> nat list option \<times> nat" where
  "hull_output r =
     (case r of (FUCKED, mesh) \<Rightarrow>
        if FUCKED then (None, 0) else (Some (concat (map vtx mesh)), length mesh))"

text \<open>
  The routine. \<open>in_vertices = None\<close> is the null pointer; otherwise the array holds
  \<open>nVert\<close> vertices. The result is the pair of \<open>*out_faces\<close> and \<open>*nOut_faces\<close>, with \<open>None\<close>
  for \<open>NULL\<close>. With \<open>nVert = 3\<close> the guard lets the call through and the first face of
  the simplex reads row \<open>3\<close> of \<open>points\<close>, which the allocation of \<open>nVert\<close> rows does
  not have.
\<close>

definition convhull_3d_build ::
  "nat \<Rightarrow> (nat \<Rightarrow> nat) \<Rightarrow> ch_vertex list option \<Rightarrow> int \<Rightarrow> fault + nat list option \<times> nat" where
  "convhull_3d_build RAND_MAX rnd in_vertices nVert =
     (if nVert < 3 \<or> in_vertices = None then Inr (None, 0)
      else
        (let n = nat nVert;
             vs = the in_vertices;
             points = perturb RAND_MAX rnd vs n
         in if \<not> 3 < length points then Inl PointsOverrun
            else
              (case main_loop points (pleft_init vs points n) (simplex points) of
                 Inl e \<Rightarrow> Inl e
               | Inr r \<Rightarrow> Inr (hull_output r))))"

subsection \<open>Auxiliary notions and sample inputs\<close>

text \<open>A row of \<open>points\<close> with three coordinates and the homogeneous \<open>1\<close>.\<close>

definition hom_row :: "real list list \<Rightarrow> nat \<Rightarrow> bool" where
  "hom_row points v \<longleftrightarrow> (\<exists>a0 a1 a2. points ! v = [a0, a1, a2, 1])"

text \<open>\<open>rand()\<close> returning \<open>0\<close> at every call, and \<open>RAND_MAX\<close> at every call.\<close>

definition no_noise :: "nat \<Rightarrow> nat" where
  "no_noise k = 0"

definition full_noise :: "nat \<Rightarrow> nat" where
  "full_noise k = 32767"

text \<open>Three points; the unit tetrahedron; the same with a fifth point inside and outside.\<close>

definition three_points :: "ch_vertex list" where
  "three_points = [[0, 0, 0], [1, 0, 0], [0, 1, 0]]"

definition tetra :: "ch_vertex list" where
  "tetra = [[0, 0, 0], [1, 0, 0], [0, 1, 0], [0, 0, 1]]"

definition tetra_points :: "real list list" where
  "tetra_points = [[0, 0, 0, 1], [1, 0, 0, 1], [0, 1, 0, 1], [0, 0, 1, 1]]"

definition tetra_in :: "real list list" where
  "tetra_in = [[0, 0, 0, 1], [1, 0, 0, 1], [0, 1, 0, 1], [0, 0, 1, 1], [1 / 4, 1 / 4, 1 / 4, 1]]"

definition tetra_out :: "real list list" where
  "tetra_out = [[0, 0, 0, 1], [1, 0, 0, 1], [0, 1, 0, 1], [0, 0, 1, 1], [1, 1, 1, 1]]"

text \<open>Four coplanar points (a unit square), and four coincident points.\<close>

definition square :: "ch_vertex list" where
  "square = [[0, 0, 0], [1, 0, 0], [0, 1, 0], [1, 1, 0]]"

definition coincident :: "ch_vertex list" where
  "coincident = [[1, 1, 1], [1, 1, 1], [1, 1, 1], [1, 1, 1]]"

text \<open>
  Seven points, six of them in the plane \<open>z = 0\<close>, with the rows of \<open>points\<close> they give
  without noise, the simplex of the first four and the mesh after the first pass.
\<close>

definition flat7 :: "ch_vertex list" where
  "flat7 = [[0, 0, 0], [0, 2, 0], [1, 1, 0], [2, 1, 0], [1, 2, 0], [0, 1, 0], [0, 0, 1]]"

definition flat7_points :: "real list list" where
  "flat7_points =
     [[0, 0, 0, 1], [0, 2, 0, 1], [1, 1, 0, 1], [2, 1, 0, 1], [1, 2, 0, 1], [0, 1, 0, 1],
      [0, 0, 1, 1]]"

definition flat7_simplex :: "face list" where
  "flat7_simplex =
     [\<lparr>vtx = [1, 2, 3], cf = [0, 0, 1], df = 0\<rparr>,
      \<lparr>vtx = [0, 2, 3], cf = [0, 0, - 1], df = 0\<rparr>,
      \<lparr>vtx = [0, 1, 3], cf = [0, 0, - 1], df = 0\<rparr>,
      \<lparr>vtx = [0, 1, 2], cf = [0, 0, - 1], df = 0\<rparr>]"

definition flat7_mesh1 :: "face list" where
  "flat7_mesh1 =
     [\<lparr>vtx = [0, 2, 3], cf = [0, 0, - 1], df = 0\<rparr>,
      \<lparr>vtx = [0, 1, 3], cf = [0, 0, - 1], df = 0\<rparr>,
      \<lparr>vtx = [0, 1, 2], cf = [0, 0, - 1], df = 0\<rparr>,
      \<lparr>vtx = [2, 6, 3], cf = [0, 1 / sqrt 2, 1 / sqrt 2], df = - (1 / sqrt 2)\<rparr>,
      \<lparr>vtx = [1, 6, 3], cf = [1 / sqrt 21, 2 / sqrt 21, 4 / sqrt 21], df = - (4 / sqrt 21)\<rparr>,
      \<lparr>vtx = [1, 6, 2], cf = [1 / sqrt 6, 1 / sqrt 6, 2 / sqrt 6], df = - (2 / sqrt 6)\<rparr>]"



definition level7 :: "ch_vertex list" where
  "level7 = [[0, 0, 1], [0, 2, 1], [1, 1, 1], [2, 1, 1], [1, 2, 1], [0, 1, 1], [3, 3, 1]]"

definition level7_points :: "real list list" where
  "level7_points =
     [[0, 0, 1, 1], [0, 2, 1, 1], [1, 1, 1, 1], [2, 1, 1, 1], [1, 2, 1, 1], [0, 1, 1, 1],
      [3, 3, 1, 1]]"

text \<open>
  A mesh of \<open>50000\<close> faces over five points: \<open>49999\<close> copies of a face that the point
  \<open>4\<close> does not see and one face that it sees, the two sharing the edge \<open>0, 1\<close>.
\<close>

definition big_points :: "real list list" where
  "big_points = [[0, 0, 0, 1], [1, 0, 0, 1], [0, 1, 0, 1], [0, 0, - 1, 1], [0, 0, 1, 1]]"

definition big_mesh :: "face list" where
  "big_mesh =
     replicate 49999 \<lparr>vtx = [0, 1, 3], cf = [0, 1, 0], df = 0\<rparr>
       @ [\<lparr>vtx = [0, 1, 2], cf = [0, 0, 1], df = 0\<rparr>]"

section \<open>Evaluation lemmas\<close>


lemma det_4x4_list:
  "det_4x4 [m0, m1, m2, m3, m4, m5, m6, m7, m8, m9, m10, m11, m12, m13, m14, m15] =
    m3 * m6 * m9 * m12 - m2 * m7 * m9 * m12 - m3 * m5 * m10 * m12 + m1 * m7 * m10 * m12 +
    m2 * m5 * m11 * m12 - m1 * m6 * m11 * m12 - m3 * m6 * m8 * m13 + m2 * m7 * m8 * m13 +
    m3 * m4 * m10 * m13 - m0 * m7 * m10 * m13 - m2 * m4 * m11 * m13 + m0 * m6 * m11 * m13 +
    m3 * m5 * m8 * m14 - m1 * m7 * m8 * m14 - m3 * m4 * m9 * m14 + m0 * m7 * m9 * m14 +
    m1 * m4 * m11 * m14 - m0 * m5 * m11 * m14 - m2 * m5 * m8 * m15 + m1 * m6 * m8 * m15 +
    m2 * m4 * m9 * m15 - m0 * m6 * m9 * m15 - m1 * m4 * m10 * m15 + m0 * m5 * m10 * m15"
  by (simp add: det_4x4_def)

lemma plane_c_raw_explicit:
  "plane_c_raw [a0, a1, a2, b0, b1, b2, c0, c1, c2] =
     [(b1 - a1) * (c2 - b2) - (c1 - b1) * (b2 - a2),
      - ((b0 - a0) * (c2 - b2) - (c0 - b0) * (b2 - a2)),
      (b0 - a0) * (c1 - b1) - (c0 - b0) * (b1 - a1)]"
  by (simp add: plane_c_raw_def minor_det_def pdiff_s_def pdiff_def)

lemma plane_3d_list:
  "plane_3d [a0, a1, a2, b0, b1, b2, c0, c1, c2] =
     (let r0 = (b1 - a1) * (c2 - b2) - (c1 - b1) * (b2 - a2);
          r1 = - ((b0 - a0) * (c2 - b2) - (c0 - b0) * (b2 - a2));
          r2 = (b0 - a0) * (c1 - b1) - (c0 - b0) * (b1 - a1);
          n = sqrt (r0\<^sup>2 + r1\<^sup>2 + r2\<^sup>2)
      in ([r0 / n, r1 / n, r2 / n], - a0 * (r0 / n) - a1 * (r1 / n) - a2 * (r2 / n)))"
  by (simp add: plane_3d_def plane_c_raw_explicit norm_c_def Let_def)

lemma A_of_3: "A_of points [a, b, c] q = points ! a @ points ! b @ points ! c @ points ! q"
  by (simp add: A_of_def)

lemma p_s_3:
  "p_s points [a, b, c] = take 3 (points ! a) @ take 3 (points ! b) @ take 3 (points ! c)"
  by (simp add: p_s_def)

lemma points_cf_list:
  "points_cf [x0, x1, x2] f = x0 * cf f ! 0 + x1 * cf f ! 1 + x2 * cf f ! 2"
  by (simp add: points_cf_def)

lemmas eval_simps = det_4x4_list plane_3d_list A_of_3 p_s_3 points_cf_list new_face_def
  flip_face_def Let_def

section \<open>The initial simplex\<close>

lemma det_4x4_homogeneous:
  "det_4x4 [a0, a1, a2, 1, b0, b1, b2, 1, c0, c1, c2, 1, q0, q1, q2, 1] =
     - (((b1 - a1) * (c2 - b2) - (c1 - b1) * (b2 - a2)) * (q0 - a0)
        + (- ((b0 - a0) * (c2 - b2) - (c0 - b0) * (b2 - a2))) * (q1 - a1)
        + ((b0 - a0) * (c1 - b1) - (c0 - b0) * (b1 - a1)) * (q2 - a2))"
  by (simp add: det_4x4_list algebra_simps)

lemma score_new_face:
  assumes "hom_row points a" "hom_row points b" "hom_row points c" "hom_row points q"
  shows "points_cf (take 3 (points ! q)) (new_face points [a, b, c]) + df (new_face points [a, b, c])
       = - det_4x4 (A_of points [a, b, c] q) / norm_c (plane_c_raw (p_s points [a, b, c]))"
proof -
  from assms obtain a0 a1 a2 b0 b1 b2 c0 c1 c2 q0 q1 q2 where
    rows: "points ! a = [a0, a1, a2, 1]" "points ! b = [b0, b1, b2, 1]"
      "points ! c = [c0, c1, c2, 1]" "points ! q = [q0, q1, q2, 1]"
    unfolding hom_row_def by blast
  have ps: "p_s points [a, b, c] = [a0, a1, a2, b0, b1, b2, c0, c1, c2]"
    by (simp add: p_s_def rows)
  have A: "A_of points [a, b, c] q = [a0, a1, a2, 1, b0, b1, b2, 1, c0, c1, c2, 1, q0, q1, q2, 1]"
    by (simp add: A_of_def rows)
  show ?thesis
    unfolding A det_4x4_homogeneous
    by (simp add: new_face_def plane_3d_def ps points_cf_def rows plane_c_raw_explicit Let_def
        add_divide_distrib diff_divide_distrib algebra_simps)
qed

lemma norm_c_nonneg: "0 \<le> norm_c c"
  by (simp add: norm_c_def)

lemma cf_new_face_length: "length (cf (new_face points f)) = 3"
  by (simp add: new_face_def plane_3d_def plane_c_raw_def Let_def)

lemma score_flip_face:
  assumes "length (cf f) = 3"
  shows "points_cf p (flip_face f) + df (flip_face f) = - (points_cf p f + df f)"
proof -
  from assms obtain x y z where "cf f = [x, y, z]"
    by (auto simp: length_Suc_conv numeral_3_eq_3)
  then show ?thesis
    by (simp add: points_cf_def flip_face_def)
qed

lemma orient_simplex_face_not_visible:
  assumes "hom_row points a" "hom_row points b" "hom_row points c" "hom_row points q"
  shows "\<not> visible_ind (take 3 (points ! q)) (orient_simplex_face points q (new_face points [a, b, c]))"
proof -
  let ?f = "new_face points [a, b, c]"
  let ?D = "det_4x4 (A_of points [a, b, c] q)"
  let ?N = "norm_c (plane_c_raw (p_s points [a, b, c]))"
  have s: "points_cf (take 3 (points ! q)) ?f + df ?f = - ?D / ?N"
    by (rule score_new_face [OF assms])
  have v: "vtx ?f = [a, b, c]"
    by (simp add: new_face_def split: prod.splits)
  show ?thesis
  proof (cases "?D < 0")
    case True
    then have "?D / ?N \<le> 0"
      by (simp add: divide_nonpos_nonneg norm_c_nonneg)
    with True show ?thesis
      by (simp add: orient_simplex_face_def v visible_ind_def score_flip_face cf_new_face_length s)
  next
    case False
    then have "0 \<le> ?D / ?N"
      by (simp add: norm_c_nonneg)
    with False show ?thesis
      by (simp add: orient_simplex_face_def v visible_ind_def s)
  qed
qed

lemma perturb_row:
  "i < n \<Longrightarrow> perturb R rnd vs n ! i =
     [vs ! i ! 0 + noise R (rnd (i * 3 + 0)), vs ! i ! 1 + noise R (rnd (i * 3 + 1)),
      vs ! i ! 2 + noise R (rnd (i * 3 + 2)), 1]"
  by (simp add: perturb_def)

lemma hom_row_perturb: "i < n \<Longrightarrow> hom_row (perturb R rnd vs n) i"
  unfolding hom_row_def by (simp add: perturb_row)

lemma vtx_new_face: "vtx (new_face points f) = f"
  by (simp add: new_face_def split: prod.splits)

lemma simplex_nth:
  assumes "k < 4"
  shows "simplex points ! k =
     orient_simplex_face points k (new_face points (filter (\<lambda>a. a \<noteq> k) [0, 1, 2, 3]))"
  and "initial_faces points ! k = new_face points (filter (\<lambda>a. a \<noteq> k) [0, 1, 2, 3])"
proof -
  from assms have k: "k = 0 \<or> k = 1 \<or> k = 2 \<or> k = 3"
    by linarith
  show "initial_faces points ! k = new_face points (filter (\<lambda>a. a \<noteq> k) [0, 1, 2, 3])"
    using k by (auto simp: initial_faces_def)
  show "simplex points ! k =
     orient_simplex_face points k (new_face points (filter (\<lambda>a. a \<noteq> k) [0, 1, 2, 3]))"
    using k by (auto simp: simplex_def initial_faces_def)
qed

lemma simplex_face_not_visible:
  assumes "hom_row points 0" "hom_row points 1" "hom_row points 2" "hom_row points 3" "k < 4"
  shows "\<not> visible_ind (take 3 (points ! k)) (simplex points ! k)"
proof -
  from \<open>k < 4\<close> consider "k = 0" | "k = 1" | "k = 2" | "k = 3"
    by linarith
  then show ?thesis
  proof cases
    case 1
    have "\<not> visible_ind (take 3 (points ! 0)) (orient_simplex_face points 0 (new_face points [1, 2, 3]))"
      by (rule orient_simplex_face_not_visible [OF assms(2) assms(3) assms(4) assms(1)])
    then show ?thesis
      unfolding 1 by (simp add: simplex_nth)
  next
    case 2
    have "\<not> visible_ind (take 3 (points ! 1)) (orient_simplex_face points 1 (new_face points [0, 2, 3]))"
      by (rule orient_simplex_face_not_visible [OF assms(1) assms(3) assms(4) assms(2)])
    then show ?thesis
      unfolding 2 by (simp add: simplex_nth)
  next
    case 3
    have "\<not> visible_ind (take 3 (points ! 2)) (orient_simplex_face points 2 (new_face points [0, 1, 3]))"
      by (rule orient_simplex_face_not_visible [OF assms(1) assms(2) assms(4) assms(3)])
    then show ?thesis
      unfolding 3 by (simp add: simplex_nth)
  next
    case 4
    have "\<not> visible_ind (take 3 (points ! 3)) (orient_simplex_face points 3 (new_face points [0, 1, 2]))"
      by (rule orient_simplex_face_not_visible [OF assms(1) assms(2) assms(3) assms(4)])
    then show ?thesis
      unfolding 4 by (simp add: simplex_nth)
  qed
qed

text \<open>
  C3 (amended). For each of the four faces of the initial simplex the determinant of the
  face's three points and the excluded point is computed; the face is flipped (last two
  vertices swapped, plane equation negated) exactly when that determinant is negative, and
  is left as it is when the determinant is zero or positive. After the pass the excluded
  point does not see the face: its plane score is not positive.
\<close>

theorem simplex_orientation:
  assumes "4 \<le> n" and "k < 4"
  shows "(let pts = perturb RAND_MAX rnd in_vertices n;
              f = initial_faces pts ! k;
              g = simplex pts ! k;
              v = det_4x4 (A_of pts (vtx f) k)
          in vtx f = filter (\<lambda>a. a \<noteq> k) [0, 1, 2, 3]
             \<and> (v < 0 \<longrightarrow> vtx g = [vtx f ! 0, vtx f ! 2, vtx f ! 1]
                    \<and> cf g = map uminus (cf f) \<and> df g = - df f)
             \<and> (\<not> v < 0 \<longrightarrow> g = f)
             \<and> \<not> visible_ind (take 3 (pts ! k)) g)"
proof -
  let ?pts = "perturb RAND_MAX rnd in_vertices n"
  have h: "hom_row ?pts 0" "hom_row ?pts 1" "hom_row ?pts 2" "hom_row ?pts 3"
    using assms(1) by (simp_all add: hom_row_perturb)
  have nv: "\<not> visible_ind (take 3 (?pts ! k)) (simplex ?pts ! k)"
    by (rule simplex_face_not_visible [OF h assms(2)])
  have g: "simplex ?pts ! k = orient_simplex_face ?pts k (initial_faces ?pts ! k)"
    using assms(2) by (simp only: simplex_nth)
  have f: "vtx (initial_faces ?pts ! k) = filter (\<lambda>a. a \<noteq> k) [0, 1, 2, 3]"
    using assms(2) by (simp only: simplex_nth vtx_new_face)
  show ?thesis
    unfolding Let_def
    using nv f by (simp add: g orient_simplex_face_def flip_face_def)
qed

lemma upt_0_4: "[0..<4] = [0, 1, 2, 3]"
  by (simp add: upt_conv_Cons)

lemma perturb_tetra: "perturb 32767 no_noise tetra 4 = tetra_points"
  by (simp add: perturb_def noise_def no_noise_def tetra_def tetra_points_def upt_0_4)

theorem simplex_orientation_witness:
  "(4::nat) \<le> 4 \<and> (3::nat) < 4
   \<and> det_4x4 (A_of tetra_points [0, 1, 2] 3) < 0
   \<and> simplex tetra_points ! 3 = \<lparr>vtx = [0, 2, 1], cf = [0, 0, - 1], df = 0\<rparr>
   \<and> \<not> visible_ind (take 3 (tetra_points ! 3)) (simplex tetra_points ! 3)"
proof -
  have a: "(4::nat) \<le> 4" and b: "(3::nat) < 4"
    by simp_all
  have v: "\<not> visible_ind (take 3 (tetra_points ! 3)) (simplex tetra_points ! 3)"
    using simplex_orientation [OF a b, of 32767 no_noise tetra]
    by (simp add: Let_def perturb_tetra)
  have d: "det_4x4 (A_of tetra_points [0, 1, 2] 3) < 0"
    by (simp add: det_4x4_list A_of_3 tetra_points_def)
  have s: "simplex tetra_points ! 3 = \<lparr>vtx = [0, 2, 1], cf = [0, 0, - 1], df = 0\<rparr>"
    by (simp add: simplex_def initial_faces_def orient_simplex_face_def eval_simps tetra_points_def)
  from a b d s v show ?thesis
    by blast
qed

text \<open>
  The claim as first stated has the sign the other way round. On the unit tetrahedron the
  face \<open>0, 1, 3\<close> has a positive determinant against the excluded point \<open>2\<close>; the pass
  leaves it as it is, and the point \<open>2\<close> does not see it.
\<close>

theorem positive_determinant_not_flipped:
  "0 < det_4x4 (A_of tetra_points (vtx (initial_faces tetra_points ! 2)) 2)
   \<and> simplex tetra_points ! 2 = initial_faces tetra_points ! 2
   \<and> vtx (simplex tetra_points ! 2) = [0, 1, 3]
   \<and> \<not> visible_ind (take 3 (tetra_points ! 2)) (simplex tetra_points ! 2)"
  by (simp add: simplex_def initial_faces_def orient_simplex_face_def eval_simps tetra_points_def
      visible_ind_def)

section \<open>The guard on the number of points\<close>

lemma length_perturb: "length (perturb R rnd vs n) = n"
  by (simp add: perturb_def)

lemma build_guard:
  "nVert < 3 \<or> in_vertices = None \<Longrightarrow>
     convhull_3d_build R rnd in_vertices nVert = Inr (None, 0)"
  by (simp add: convhull_3d_build_def)

lemma build_unfold:
  assumes "3 < nVert"
  shows "convhull_3d_build R rnd (Some vs) nVert =
     (case main_loop (perturb R rnd vs (nat nVert))
             (pleft_init vs (perturb R rnd vs (nat nVert)) (nat nVert))
             (simplex (perturb R rnd vs (nat nVert))) of
        Inl e \<Rightarrow> Inl e
      | Inr r \<Rightarrow> Inr (hull_output r))"
proof -
  from assms have "3 < nat nVert"
    by linarith
  with assms show ?thesis
    by (simp add: convhull_3d_build_def Let_def length_perturb)
qed

text \<open>
  C1. An input of fewer than four points is to give the empty hull without entering the
  pipeline. The guard of the routine is \<open>nVert < 3\<close>: a call with exactly three points
  passes it, and building the first face of the simplex then reads row \<open>3\<close> of
  \<open>points\<close>, which has three rows. The result is not the empty hull.
\<close>

theorem three_points_pass_the_guard:
  "convhull_3d_build R rnd (Some vs) 3 = Inl PointsOverrun
   \<and> convhull_3d_build 32767 no_noise (Some three_points) 3 \<noteq> Inr (None, 0)"
  by (simp add: convhull_3d_build_def Let_def length_perturb)

section \<open>The perturbation\<close>

text \<open>
  C2 (amended). The offset added to a coordinate is \<open>CH_NOISE_VAL * rand() / RAND_MAX\<close>.
  With \<open>rand()\<close> in its range it lies between \<open>0\<close> and the constant \<open>CH_NOISE_VAL\<close>,
  and it is the same for every array of input points: neither the spread of the axis nor
  the points enter it.
\<close>

theorem perturbation_bound:
  assumes "0 < RAND_MAX" and "rnd (i * 3 + j) \<le> RAND_MAX" and "i < n" and "j < 3"
  shows "perturb RAND_MAX rnd vs n ! i ! j - vs ! i ! j
           = CH_NOISE_VAL * real (rnd (i * 3 + j)) / real RAND_MAX
       \<and> 0 \<le> perturb RAND_MAX rnd vs n ! i ! j - vs ! i ! j
       \<and> perturb RAND_MAX rnd vs n ! i ! j - vs ! i ! j \<le> CH_NOISE_VAL
       \<and> perturb RAND_MAX rnd vs n ! i ! j - vs ! i ! j
           = perturb RAND_MAX rnd vs' n ! i ! j - vs' ! i ! j"
proof -
  from \<open>j < 3\<close> have j: "j = 0 \<or> j = 1 \<or> j = 2"
    by linarith
  have eq: "perturb RAND_MAX rnd ws n ! i ! j - ws ! i ! j = noise RAND_MAX (rnd (i * 3 + j))" for ws
    using j \<open>i < n\<close> by (auto simp: perturb_row)
  have lo: "0 \<le> noise RAND_MAX (rnd (i * 3 + j))"
    by (simp add: noise_def CH_NOISE_VAL_def)
  have "real (rnd (i * 3 + j)) / real RAND_MAX \<le> 1"
    using assms(1,2) by simp
  then have "CH_NOISE_VAL * (real (rnd (i * 3 + j)) / real RAND_MAX) \<le> CH_NOISE_VAL * 1"
    by (intro mult_left_mono) (simp_all add: CH_NOISE_VAL_def)
  then have hi: "noise RAND_MAX (rnd (i * 3 + j)) \<le> CH_NOISE_VAL"
    by (simp add: noise_def)
  show ?thesis
    using lo hi by (simp add: eq) (simp add: noise_def)
qed

theorem perturbation_bound_witness:
  "(0::nat) < 32767 \<and> full_noise (0 * 3 + 0) \<le> 32767 \<and> (0::nat) < 4 \<and> (0::nat) < 3
   \<and> perturb 32767 full_noise coincident 4 ! 0 ! 0 - coincident ! 0 ! 0 = CH_NOISE_VAL
   \<and> perturb 32767 full_noise coincident 4 ! 0 ! 0 - coincident ! 0 ! 0
        = perturb 32767 full_noise tetra 4 ! 0 ! 0 - tetra ! 0 ! 0"
proof -
  have h: "(0::nat) < 32767" "full_noise (0 * 3 + 0) \<le> 32767" "(0::nat) < 4" "(0::nat) < 3"
    by (simp_all add: full_noise_def)
  from perturbation_bound [of 32767 full_noise 0 0 4 coincident tetra, OF h] h show ?thesis
    by (simp add: full_noise_def)
qed

text \<open>
  Four coincident points have spread \<open>0\<close> on every axis, and a call of \<open>rand()\<close> that
  returns \<open>RAND_MAX\<close> still moves the coordinate by \<open>CH_NOISE_VAL\<close>.
\<close>

theorem perturbation_ignores_spread:
  "span coincident 4 0 = 0 \<and> span coincident 4 1 = 0 \<and> span coincident 4 2 = 0
   \<and> perturb 32767 full_noise coincident 4 ! 0 ! 0 - coincident ! 0 ! 0 = 1 / 10000000"
  by (simp add: span_def MAX2_def MIN2_def coincident_def upt_0_4 perturb_def noise_def
      full_noise_def CH_NOISE_VAL_def)

section \<open>Coplanar initial points\<close>

lemma simplex_zero_determinants:
  assumes "\<forall>k<4. det_4x4 (A_of pts (vtx (initial_faces pts ! k)) k) = 0"
  shows "simplex pts = initial_faces pts"
proof -
  have "orient_simplex_face pts k (initial_faces pts ! k) = initial_faces pts ! k" if "k < 4" for k
    using assms that by (simp add: orient_simplex_face_def)
  then have "simplex pts = map (\<lambda>k. initial_faces pts ! k) [0, 1, 2, 3]"
    by (simp add: simplex_def)
  also have "\<dots> = initial_faces pts"
    by (simp add: initial_faces_def)
  finally show ?thesis .
qed

lemma vtx_initial_faces:
  "map vtx (initial_faces pts) = [[1, 2, 3], [0, 2, 3], [0, 1, 3], [0, 1, 2]]"
  by (simp add: initial_faces_def vtx_new_face)

lemma pleft_init_4: "pleft_init vs pts 4 = []"
  by (simp add: pleft_init_def sort_float_def qsort_def)

text \<open>
  C7 (amended). The routine has no test for a degenerate simplex. When the four orientation
  determinants are all zero the simplex pass flips nothing, and the construction goes on
  into the main loop with the four faces in their first order; no failure is signalled.
  With exactly four points the result is that mesh of four faces. The simplex pass itself
  has no loop.
\<close>

theorem coplanar_simplex_continues:
  assumes "3 < nVert"
    and "\<forall>k<4. det_4x4 (A_of (perturb R rnd vs (nat nVert))
                   (vtx (initial_faces (perturb R rnd vs (nat nVert)) ! k)) k) = 0"
  shows "simplex (perturb R rnd vs (nat nVert)) = initial_faces (perturb R rnd vs (nat nVert))
       \<and> map vtx (simplex (perturb R rnd vs (nat nVert))) = [[1, 2, 3], [0, 2, 3], [0, 1, 3], [0, 1, 2]]
       \<and> convhull_3d_build R rnd (Some vs) nVert =
           (case main_loop (perturb R rnd vs (nat nVert))
                   (pleft_init vs (perturb R rnd vs (nat nVert)) (nat nVert))
                   (initial_faces (perturb R rnd vs (nat nVert))) of
              Inl e \<Rightarrow> Inl e
            | Inr r \<Rightarrow> Inr (hull_output r))
       \<and> (nVert = 4 \<longrightarrow>
            convhull_3d_build R rnd (Some vs) nVert
              = Inr (Some [1, 2, 3, 0, 2, 3, 0, 1, 3, 0, 1, 2], 4))"
proof -
  let ?pts = "perturb R rnd vs (nat nVert)"
  have s: "simplex ?pts = initial_faces ?pts"
    by (rule simplex_zero_determinants [OF assms(2)])
  have v: "map vtx (simplex ?pts) = [[1, 2, 3], [0, 2, 3], [0, 1, 3], [0, 1, 2]]"
    by (simp only: s vtx_initial_faces)
  have b: "convhull_3d_build R rnd (Some vs) nVert =
           (case main_loop ?pts (pleft_init vs ?pts (nat nVert)) (initial_faces ?pts) of
              Inl e \<Rightarrow> Inl e | Inr r \<Rightarrow> Inr (hull_output r))"
    using build_unfold [OF assms(1), of R rnd vs] by (simp only: s)
  have f: "convhull_3d_build R rnd (Some vs) nVert
             = Inr (Some [1, 2, 3, 0, 2, 3, 0, 1, 3, 0, 1, 2], 4)" if "nVert = 4"
  proof -
    have "concat (map vtx (initial_faces ?pts)) = [1, 2, 3, 0, 2, 3, 0, 1, 3, 0, 1, 2]"
      by (simp only: vtx_initial_faces) simp
    moreover have "length (initial_faces ?pts) = 4"
      by (simp add: initial_faces_def)
    ultimately show ?thesis
      unfolding b using that by (simp add: pleft_init_4 hull_output_def)
  qed
  from s v b f show ?thesis
    by blast
qed

lemma perturb_square:
  "perturb 32767 no_noise square 4 = [[0, 0, 0, 1], [1, 0, 0, 1], [0, 1, 0, 1], [1, 1, 0, 1]]"
  by (simp add: perturb_def noise_def no_noise_def square_def upt_0_4)

lemma square_determinants:
  "\<forall>k<4. det_4x4 (A_of (perturb 32767 no_noise square (nat 4))
             (vtx (initial_faces (perturb 32767 no_noise square (nat 4)) ! k)) k) = 0"
proof (intro allI impI)
  fix k :: nat
  assume "k < 4"
  then have "k = 0 \<or> k = 1 \<or> k = 2 \<or> k = 3"
    by linarith
  then show "det_4x4 (A_of (perturb 32767 no_noise square (nat 4))
             (vtx (initial_faces (perturb 32767 no_noise square (nat 4)) ! k)) k) = 0"
    by (auto simp: perturb_square initial_faces_def vtx_new_face A_of_3 det_4x4_list)
qed

theorem coplanar_simplex_continues_witness:
  "(3::int) < 4
   \<and> det_4x4 (A_of (perturb 32767 no_noise square 4) [1, 2, 3] 0) = 0
   \<and> det_4x4 (A_of (perturb 32767 no_noise square 4) [0, 2, 3] 1) = 0
   \<and> det_4x4 (A_of (perturb 32767 no_noise square 4) [0, 1, 3] 2) = 0
   \<and> det_4x4 (A_of (perturb 32767 no_noise square 4) [0, 1, 2] 3) = 0
   \<and> simplex (perturb 32767 no_noise square 4) = initial_faces (perturb 32767 no_noise square 4)
   \<and> convhull_3d_build 32767 no_noise (Some square) 4
        = Inr (Some [1, 2, 3, 0, 2, 3, 0, 1, 3, 0, 1, 2], 4)"
proof -
  have a: "(3::int) < 4"
    by simp
  have d: "det_4x4 (A_of (perturb 32767 no_noise square 4) [1, 2, 3] 0) = 0"
    "det_4x4 (A_of (perturb 32767 no_noise square 4) [0, 2, 3] 1) = 0"
    "det_4x4 (A_of (perturb 32767 no_noise square 4) [0, 1, 3] 2) = 0"
    "det_4x4 (A_of (perturb 32767 no_noise square 4) [0, 1, 2] 3) = 0"
    by (simp_all add: perturb_square A_of_3 det_4x4_list)
  have n: "nat 4 = (4::nat)"
    by simp
  note t = coplanar_simplex_continues [OF a square_determinants, unfolded n]
  from t have s: "simplex (perturb 32767 no_noise square 4)
      = initial_faces (perturb 32767 no_noise square 4)"
    by (rule conjunct1)
  have "(4::int) = 4 \<longrightarrow> convhull_3d_build 32767 no_noise (Some square) 4
        = Inr (Some [1, 2, 3, 0, 2, 3, 0, 1, 3, 0, 1, 2], 4)"
    by (rule conjunct2 [OF conjunct2 [OF conjunct2 [OF t]]])
  then have "convhull_3d_build 32767 no_noise (Some square) 4
        = Inr (Some [1, 2, 3, 0, 2, 3, 0, 1, 3, 0, 1, 2], 4)"
    by (rule mp) (rule refl)
  with a d s show ?thesis
    by blast
qed

text \<open>
  Four points in the plane \<open>z = 0\<close>, without noise: every orientation determinant is
  zero, and the routine returns four faces, not a failure.
\<close>

theorem coplanar_square_builds:
  "det_4x4 (A_of (perturb 32767 no_noise square 4) [1, 2, 3] 0) = 0
   \<and> det_4x4 (A_of (perturb 32767 no_noise square 4) [0, 2, 3] 1) = 0
   \<and> det_4x4 (A_of (perturb 32767 no_noise square 4) [0, 1, 3] 2) = 0
   \<and> det_4x4 (A_of (perturb 32767 no_noise square 4) [0, 1, 2] 3) = 0
   \<and> convhull_3d_build 32767 no_noise (Some square) 4
        = Inr (Some [1, 2, 3, 0, 2, 3, 0, 1, 3, 0, 1, 2], 4)"
proof -
  have "simplex (perturb 32767 no_noise square 4) = initial_faces (perturb 32767 no_noise square 4)"
    using simplex_zero_determinants [OF square_determinants] by simp
  then have "convhull_3d_build 32767 no_noise (Some square) 4
        = Inr (Some [1, 2, 3, 0, 2, 3, 0, 1, 3, 0, 1, 2], 4)"
    by (simp add: convhull_3d_build_def Let_def length_perturb pleft_init_4 hull_output_def
        initial_faces_def vtx_new_face)
  then show ?thesis
    by (simp add: perturb_square A_of_3 det_4x4_list)
qed

section \<open>Visibility\<close>

lemma points_cf_sum: "points_cf p f = (\<Sum>k<3. p ! k * cf f ! k)"
  by (simp add: points_cf_def numeral_3_eq_3 numeral_2_eq_2)

lemma iteration_nothing_visible:
  assumes "\<forall>f\<in>set mesh. \<not> visible_ind (take 3 (points ! i)) f"
  shows "iteration points i mesh = Inr (False, mesh)"
proof -
  from assms have "filter (visible_ind (take 3 (points ! i))) mesh = []"
    by (simp add: filter_empty_conv)
  then show ?thesis
    by (simp add: iteration_def)
qed

text \<open>
  C4. A face is visible from a point exactly when the dot product of its normal with the
  point plus its offset is positive. When no face of the mesh is visible the pass returns
  the mesh as it was (the rows of vertex indices, the plane coefficients and so the face
  count), without the abort flag, and the loop goes on with the rest of the queue.
  The classification is a function of the point and the face; it has no effect on the mesh.
\<close>

theorem visibility_classification:
  "(visible_ind p f \<longleftrightarrow> (\<Sum>k<3. cf f ! k * p ! k) + df f > 0)
   \<and> ((\<forall>f\<in>set mesh. \<not> visible_ind (take 3 (points ! i)) f) \<longrightarrow>
        iteration points i mesh = Inr (False, mesh)
        \<and> main_loop points (i # pleft) mesh = main_loop points pleft mesh)"
proof -
  have "(\<Sum>k<3. cf f ! k * p ! k) = points_cf p f"
    by (simp add: points_cf_sum mult.commute)
  then have a: "visible_ind p f \<longleftrightarrow> (\<Sum>k<3. cf f ! k * p ! k) + df f > 0"
    by (simp add: visible_ind_def)
  have b: "iteration points i mesh = Inr (False, mesh)
        \<and> main_loop points (i # pleft) mesh = main_loop points pleft mesh"
    if "\<forall>f\<in>set mesh. \<not> visible_ind (take 3 (points ! i)) f"
    using iteration_nothing_visible [OF that] by simp
  from a b show ?thesis
    by blast
qed

lemma sqrt_3_pos: "0 < sqrt 3"
  by simp

lemma simplex_tetra_in:
  "simplex tetra_in =
     [\<lparr>vtx = [1, 2, 3], cf = [1 / sqrt 3, 1 / sqrt 3, 1 / sqrt 3], df = - (1 / sqrt 3)\<rparr>,
      \<lparr>vtx = [0, 3, 2], cf = [- 1, 0, 0], df = 0\<rparr>,
      \<lparr>vtx = [0, 1, 3], cf = [0, - 1, 0], df = 0\<rparr>,
      \<lparr>vtx = [0, 2, 1], cf = [0, 0, - 1], df = 0\<rparr>]"
  by (simp add: simplex_def initial_faces_def orient_simplex_face_def eval_simps tetra_in_def)

lemma tetra_in_nothing_visible:
  "\<forall>f\<in>set (simplex tetra_in). \<not> visible_ind (take 3 (tetra_in ! 4)) f"
  unfolding simplex_tetra_in
  by (simp add: visible_ind_def points_cf_list tetra_in_def)

theorem visibility_classification_witness:
  "filter (visible_ind (take 3 (tetra_in ! 4))) (simplex tetra_in) = []
   \<and> iteration tetra_in 4 (simplex tetra_in) = Inr (False, simplex tetra_in)
   \<and> main_loop tetra_in [4] (simplex tetra_in) = Inr (False, simplex tetra_in)"
  using visibility_classification [of "take 3 (tetra_in ! 4)" "simplex tetra_in ! 0"
      "simplex tetra_in" tetra_in 4 "[]"] tetra_in_nothing_visible
  by (simp add: filter_empty_conv)

section \<open>The queue\<close>

subsection \<open>The sort\<close>

lemma qsort_Cons: "qsort cmp (x # xs) = qsort_insert cmp x (qsort cmp xs)"
  by (simp add: qsort_def)

lemma set_qsort_insert: "set (qsort_insert cmp x ys) = insert x (set ys)"
  by (induction ys) auto

lemma set_qsort: "set (qsort cmp xs) = set xs"
proof (induction xs)
  case Nil
  show ?case by (simp add: qsort_def)
next
  case (Cons x xs)
  then show ?case by (simp add: qsort_Cons set_qsort_insert)
qed

lemma distinct_map_qsort_insert:
  "distinct (map f (qsort_insert cmp x ys)) \<longleftrightarrow> f x \<notin> f ` set ys \<and> distinct (map f ys)"
  by (induction ys) (auto simp: set_qsort_insert)

lemma distinct_map_qsort: "distinct (map f (qsort cmp xs)) = distinct (map f xs)"
proof (induction xs)
  case Nil
  show ?case by (simp add: qsort_def)
next
  case (Cons x xs)
  then show ?case by (simp add: qsort_Cons distinct_map_qsort_insert set_qsort)
qed







lemma sort_float_desc:
  "sort_float in_vec True =
     (map fst (qsort cmp_desc_float (zip in_vec [0..<length in_vec])),
      map snd (qsort cmp_desc_float (zip in_vec [0..<length in_vec])))"
  by (simp add: sort_float_def Let_def)

lemma snd_zip_upt: "snd ` set (zip in_vec [0..<length in_vec]) = {0..<length in_vec}"
proof -
  have "snd ` set (zip in_vec [0..<length in_vec])
          = set (map snd (zip in_vec [0..<length in_vec]))"
    by (simp only: set_map)
  also have "\<dots> = {0..<length in_vec}"
    by simp
  finally show ?thesis .
qed

lemma sort_float_desc_set:
  "set (snd (sort_float in_vec True)) = {0..<length in_vec}"
  by (simp add: sort_float_desc set_qsort snd_zip_upt)

lemma sort_float_desc_distinct: "distinct (snd (sort_float in_vec True))"
  by (simp add: sort_float_desc distinct_map_qsort)



subsection \<open>The keys\<close>















subsection \<open>The queue at the start\<close>

lemma pleft_init_ind:
  "pleft_init vs pts n =
     map (\<lambda>i. i + 3 + 1) (snd (sort_float (map (reldist vs pts n) [0..<n - 3 - 1]) True))"
  by (simp add: pleft_init_def split: prod.splits)



lemma pleft_init_set: "set (pleft_init vs pts n) = {4..<n}"
proof -
  have "(\<lambda>i. i + 3 + 1) ` {0..<n - 3 - 1} = {4..<n}"
  proof (intro set_eqI iffI)
    fix a assume "a \<in> (\<lambda>i. i + 3 + 1) ` {0..<n - 3 - 1}"
    then show "a \<in> {4..<n}"
      by auto
  next
    fix a assume a: "a \<in> {4..<n}"
    then have "a = (a - 4) + 3 + 1" and "a - 4 \<in> {0..<n - 3 - 1}"
      by auto
    then show "a \<in> (\<lambda>i. i + 3 + 1) ` {0..<n - 3 - 1}"
      by (rule image_eqI)
  qed
  then show ?thesis
    by (simp add: pleft_init_ind sort_float_desc_set)
qed

lemma pleft_init_distinct: "distinct (pleft_init vs pts n)"
  by (simp add: pleft_init_ind distinct_map sort_float_desc_distinct inj_on_def)

lemma main_loop_append:
  "main_loop pts (xs @ ys) mesh =
     (case main_loop pts xs mesh of
        Inl e \<Rightarrow> Inl e
      | Inr (FUCKED, m) \<Rightarrow> if FUCKED then Inr (True, m) else main_loop pts ys m)"
proof (induction xs arbitrary: mesh)
  case Nil
  show ?case by simp
next
  case (Cons i xs)
  show ?case
  proof (cases "iteration pts i mesh")
    case (Inl e)
    then show ?thesis by simp
  next
    case (Inr r)
    obtain FUCKED m where r: "r = (FUCKED, m)"
      by (cases r)
    show ?thesis
      using Inr r Cons.IH [of m] by (cases FUCKED) simp_all
  qed
qed


lemma upt_0_7_queue: "[0..<7] = [0, 1, 2, 3, 4, 5, 6]"
  by (simp add: upt_conv_Cons)





lemma perturb_level7: "perturb 32767 no_noise level7 7 = level7_points"
  by (simp add: perturb_def noise_def no_noise_def level7_def level7_points_def upt_0_7_queue)



section \<open>The search for a reference point\<close>

lemma upt_0_7: "[0..<7] = [0, 1, 2, 3, 4, 5, 6]"
  by (simp add: upt_conv_Cons)

lemma perturb_flat7: "perturb 32767 no_noise flat7 7 = flat7_points"
  by (simp add: perturb_def noise_def no_noise_def flat7_def flat7_points_def upt_0_7)

lemma sqrt_16: "sqrt 16 = 4"
  using real_sqrt_abs [of 4] by simp

lemma sqrt_4: "sqrt 4 = 2"
  using real_sqrt_abs [of 2] by simp

lemma simplex_flat7: "simplex flat7_points = flat7_simplex"
  by (simp add: simplex_def initial_faces_def orient_simplex_face_def eval_simps flat7_points_def
      sqrt_16 sqrt_4 flat7_simplex_def)

lemma pleft_flat7: "pleft_init flat7 flat7_points 7 = [6, 4, 5]"
  by (simp add: pleft_init_def sort_float_def qsort_def cmp_desc_float_def reldist_def
      absdist_def fl_div_def meanp_def span_def MAX2_def MIN2_def flat7_def flat7_points_def
      upt_conv_Cons Let_def power2_eq_square)

lemmas horizon_defs = horizon_def horizon_of_visible_def horizon_edge_def f0_row_def ismember_def
  visible_ind_def points_cf_list

lemma iteration_flat7_first: "iteration flat7_points 6 flat7_simplex = Inr (False, flat7_mesh1)"
  apply (simp add: iteration_def flat7_points_def)
  apply (simp add: horizon_defs flat7_simplex_def)
  apply (simp add: eval_simps CH_MAX_NUM_FACES_def)
  apply (simp add: orient_new_face_def pp_of_def ismember_def upt_conv_Cons eval_simps flat7_mesh1_def)
  done

lemma iteration_flat7_second: "iteration flat7_points 4 flat7_mesh1 = Inl PPOverrun"
  apply (simp add: iteration_def flat7_points_def)
  apply (simp add: horizon_defs flat7_mesh1_def)
  apply (simp add: eval_simps CH_MAX_NUM_FACES_def)
  apply (simp add: orient_new_face_def pp_of_def ismember_def upt_conv_Cons eval_simps)
  done

text \<open>
  C9. While a candidate reference point is coplanar with the new face the search moves on
  to the next candidate, without signalling anything. The search is to stay within the
  \<open>num_p\<close> candidates collected in \<open>pp\<close>. It does not: for the seven points
  \<open>flat7\<close> (six of them in one plane, no noise) the queue is \<open>6, 4, 5\<close>, the first
  pass succeeds, and in the second pass the new face \<open>2, 3, 4\<close> has the candidates
  \<open>0, 1, 5\<close>, all three coplanar with it, so that the loop reads \<open>pp[3]\<close>.
\<close>

theorem reference_search_overrun:
  "convhull_3d_build 32767 no_noise (Some flat7) 7 = Inl PPOverrun
   \<and> pleft_init flat7 (perturb 32767 no_noise flat7 7) 7 = [6, 4, 5]
   \<and> iteration flat7_points 6 (simplex flat7_points) = Inr (False, flat7_mesh1)
   \<and> iteration flat7_points 4 flat7_mesh1 = Inl PPOverrun
   \<and> pp_of 6 [2, 3, 4] = [0, 1, 5]
   \<and> det_4x4 (A_of flat7_points [2, 3, 4] 0) = 0
   \<and> det_4x4 (A_of flat7_points [2, 3, 4] 1) = 0
   \<and> det_4x4 (A_of flat7_points [2, 3, 4] 5) = 0
   \<and> ref_search flat7_points [2, 3, 4] (pp_of 6 [2, 3, 4]) = Inl PPOverrun"
proof -
  have b: "convhull_3d_build 32767 no_noise (Some flat7) 7 = Inl PPOverrun"
    by (simp add: convhull_3d_build_def Let_def perturb_flat7 pleft_flat7 simplex_flat7
        iteration_flat7_first iteration_flat7_second)
      (simp add: flat7_points_def)
  have p: "pp_of 6 [2, 3, 4] = [0, 1, 5]"
    by (simp add: pp_of_def ismember_def upt_conv_Cons)
  have d: "det_4x4 (A_of flat7_points [2, 3, 4] 0) = 0"
    "det_4x4 (A_of flat7_points [2, 3, 4] 1) = 0"
    "det_4x4 (A_of flat7_points [2, 3, 4] 5) = 0"
    by (simp_all add: A_of_3 det_4x4_list flat7_points_def)
  have r: "ref_search flat7_points [2, 3, 4] (pp_of 6 [2, 3, 4]) = Inl PPOverrun"
    unfolding p by (simp add: A_of_3 det_4x4_list flat7_points_def)
  from b p d r show ?thesis
    by (simp add: perturb_flat7 pleft_flat7 simplex_flat7 iteration_flat7_first
        iteration_flat7_second)
qed

section \<open>The orientation fix\<close>

lemma length_4_list:
  assumes "length (r::real list) = 4"
  obtains a b c d where "r = [a, b, c, d]"
  using assms by (auto simp: length_Suc_conv numeral_eq_Suc)

lemma det_4x4_swap:
  assumes "length r0 = 4" "length r1 = 4" "length r2 = 4" "length q = 4"
  shows "det_4x4 (r0 @ r2 @ r1 @ q) = - det_4x4 (r0 @ r1 @ r2 @ q)"
proof -
  obtain a0 a1 a2 a3 where r0: "r0 = [a0, a1, a2, a3]"
    using assms(1) by (rule length_4_list)
  obtain b0 b1 b2 b3 where r1: "r1 = [b0, b1, b2, b3]"
    using assms(2) by (rule length_4_list)
  obtain c0 c1 c2 c3 where r2: "r2 = [c0, c1, c2, c3]"
    using assms(3) by (rule length_4_list)
  obtain q0 q1 q2 q3 where q: "q = [q0, q1, q2, q3]"
    using assms(4) by (rule length_4_list)
  show ?thesis
    unfolding r0 r1 r2 q by (simp add: det_4x4_list algebra_simps)
qed

lemma length_3_list:
  assumes "length (f::nat list) = 3"
  obtains a b c where "f = [a, b, c]"
  using assms by (auto simp: length_Suc_conv numeral_eq_Suc)

lemma vtx_flip_face: "vtx f = [a, b, c] \<Longrightarrow> vtx (flip_face f) = [a, c, b]"
  by (simp add: flip_face_def)

lemma det_flip_face:
  assumes "vtx f = [a, b, c]" and "\<forall>row\<in>set points. length row = 4"
    and "a < length points" "b < length points" "c < length points" "k < length points"
  shows "det_4x4 (A_of points (vtx (flip_face f)) k) = - det_4x4 (A_of points (vtx f) k)"
proof -
  have "length (points ! a) = 4" "length (points ! b) = 4" "length (points ! c) = 4"
    "length (points ! k) = 4"
    using assms by simp_all
  then have "det_4x4 (points ! a @ points ! c @ points ! b @ points ! k)
      = - det_4x4 (points ! a @ points ! b @ points ! c @ points ! k)"
    by (intro det_4x4_swap)
  then show ?thesis
    by (simp only: vtx_flip_face [OF assms(1)] assms(1) A_of_3)
qed

lemma orient_simplex_face_keeps:
  "0 \<le> det_4x4 (A_of points (vtx f) k) \<Longrightarrow> orient_simplex_face points k f = f"
  by (simp add: orient_simplex_face_def)

lemma orient_simplex_face_idem:
  assumes "length (vtx f) = 3" and "\<forall>row\<in>set points. length row = 4"
    and "\<forall>v\<in>set (vtx f). v < length points" and "k < length points"
  shows "orient_simplex_face points k (orient_simplex_face points k f)
       = orient_simplex_face points k f"
proof (cases "det_4x4 (A_of points (vtx f) k) < 0")
  case True
  obtain a b c where v: "vtx f = [a, b, c]"
    using assms(1) by (rule length_3_list)
  have "det_4x4 (A_of points (vtx (flip_face f)) k) = - det_4x4 (A_of points (vtx f) k)"
    using assms(3) by (intro det_flip_face [OF v assms(2)] assms(4)) (simp_all add: v)
  with True have "0 \<le> det_4x4 (A_of points (vtx (flip_face f)) k)"
    by simp
  then have "orient_simplex_face points k (flip_face f) = flip_face f"
    by (rule orient_simplex_face_keeps)
  with True show ?thesis
    by (simp add: orient_simplex_face_def)
next
  case False
  then show ?thesis
    by (simp add: orient_simplex_face_def)
qed

lemma pp_of_swap: "pp_of nFaces [a, c, b] = pp_of nFaces [a, b, c]"
proof -
  have "set (sort [a, c, b]) = set (sort [a, b, c])"
    by (simp only: set_sort) auto
  then show ?thesis
    by (simp only: pp_of_def ismember_def)
qed

lemma ref_search_swap:
  assumes "\<forall>row\<in>set points. length row = 4"
    and "a < length points" "b < length points" "c < length points"
  shows "ref_search points [a, c, b] pp =
     (case ref_search points [a, b, c] pp of
        Inl e \<Rightarrow> Inl e
      | Inr (detA, rest) \<Rightarrow> Inr (- detA, rest))"
proof (induction pp)
  case Nil
  show ?case by simp
next
  case (Cons q pp)
  show ?case
  proof (cases "q < length points")
    case True
    have "length (points ! a) = 4" "length (points ! b) = 4" "length (points ! c) = 4"
      "length (points ! q) = 4"
      using assms True by simp_all
    then have "det_4x4 (points ! a @ points ! c @ points ! b @ points ! q)
        = - det_4x4 (points ! a @ points ! b @ points ! c @ points ! q)"
      by (intro det_4x4_swap)
    then have "det_4x4 (A_of points [a, c, b] q) = - det_4x4 (A_of points [a, b, c] q)"
      by (simp only: A_of_3)
    with True Cons.IH show ?thesis
      by (simp add: Let_def)
  next
    case False
    then show ?thesis by simp
  qed
qed

lemma orient_new_face_keeps:
  assumes "ref_search points (vtx f) (pp_of nFaces (vtx f)) = Inr (detA, rest)" and "0 \<le> detA"
  shows "orient_new_face points nFaces f = Inr f"
  using assms by (simp add: orient_new_face_def)

lemma orient_new_face_idem:
  assumes "length (vtx f) = 3" and "\<forall>row\<in>set points. length row = 4"
    and "\<forall>v\<in>set (vtx f). v < length points"
    and "orient_new_face points nFaces f = Inr g"
  shows "orient_new_face points nFaces g = Inr g"
proof -
  obtain a b c where v: "vtx f = [a, b, c]"
    using assms(1) by (rule length_3_list)
  have lt: "a < length points" "b < length points" "c < length points"
    using assms(3) by (simp_all add: v)
  from assms(4) obtain detA rest where
    r: "ref_search points [a, b, c] (pp_of nFaces [a, b, c]) = Inr (detA, rest)"
    by (auto simp: orient_new_face_def v split: sum.splits)
  show ?thesis
  proof (cases "detA < 0")
    case True
    with assms(4) r have g: "g = flip_face f"
      by (auto simp: orient_new_face_def v split: list.splits if_splits)
    have "ref_search points [a, c, b] (pp_of nFaces [a, c, b]) = Inr (- detA, rest)"
      by (simp add: pp_of_swap ref_search_swap [OF assms(2) lt] r)
    then have "ref_search points (vtx g) (pp_of nFaces (vtx g)) = Inr (- detA, rest)"
      by (simp only: g vtx_flip_face [OF v])
    moreover have "0 \<le> - detA"
      using True by simp
    ultimately show ?thesis
      by (rule orient_new_face_keeps)
  next
    case False
    with assms(4) r have "g = f"
      by (simp add: orient_new_face_def v)
    with assms(4) show ?thesis
      by simp
  qed
qed

text \<open>
  C10. The orientation fix leaves a correctly oriented face alone. In the simplex pass a
  face whose determinant against the excluded point is zero or positive comes back
  unchanged. In the pass over new faces a face for which the search settles on a
  determinant that is not negative comes back unchanged. Both steps are idempotent on
  faces of three vertices over rows of four numbers: a face that has been through the
  step is returned as it is by a second run.
\<close>

theorem orientation_fix_idempotent:
  "(0 \<le> det_4x4 (A_of points (vtx f) k) \<longrightarrow> orient_simplex_face points k f = f)
   \<and> (\<forall>detA rest. ref_search points (vtx f) (pp_of nFaces (vtx f)) = Inr (detA, rest)
          \<longrightarrow> 0 \<le> detA \<longrightarrow> orient_new_face points nFaces f = Inr f)
   \<and> (length (vtx f) = 3 \<and> (\<forall>row\<in>set points. length row = 4)
        \<and> (\<forall>v\<in>set (vtx f). v < length points) \<longrightarrow>
          (k < length points \<longrightarrow>
             orient_simplex_face points k (orient_simplex_face points k f)
               = orient_simplex_face points k f)
          \<and> (\<forall>g. orient_new_face points nFaces f = Inr g
                 \<longrightarrow> orient_new_face points nFaces g = Inr g))"
  using orient_simplex_face_keeps [of points f k] orient_new_face_keeps [of points f nFaces]
    orient_simplex_face_idem [of f points k] orient_new_face_idem [of f points nFaces]
  by blast

lemma initial_face_tetra_2:
  "initial_faces tetra_points ! 2 = \<lparr>vtx = [0, 1, 3], cf = [0, - 1, 0], df = 0\<rparr>"
  by (simp add: initial_faces_def eval_simps tetra_points_def)

lemma initial_face_tetra_3:
  "initial_faces tetra_points ! 3 = \<lparr>vtx = [0, 1, 2], cf = [0, 0, 1], df = 0\<rparr>"
  by (simp add: initial_faces_def eval_simps tetra_points_def)

lemma new_face_big_points:
  "new_face big_points [1, 0, 4] = \<lparr>vtx = [1, 0, 4], cf = [0, 1, 0], df = 0\<rparr>"
  by (simp add: eval_simps big_points_def)

lemma orient_new_face_big_points:
  "orient_new_face big_points 6 \<lparr>vtx = [1, 0, 4], cf = [0, 1, 0], df = 0\<rparr>
     = Inr \<lparr>vtx = [1, 4, 0], cf = [0, - 1, 0], df = 0\<rparr>"
  by (simp add: orient_new_face_def pp_of_def ismember_def upt_conv_Cons eval_simps big_points_def)

theorem orientation_fix_idempotent_witness:
  "0 \<le> det_4x4 (A_of tetra_points (vtx (initial_faces tetra_points ! 2)) 2)
   \<and> orient_simplex_face tetra_points 2 (initial_faces tetra_points ! 2)
        = initial_faces tetra_points ! 2
   \<and> length (vtx (initial_faces tetra_points ! 3)) = 3
   \<and> list_all (\<lambda>row. length row = 4) tetra_points
   \<and> list_all (\<lambda>v. v < length tetra_points) (vtx (initial_faces tetra_points ! 3))
   \<and> 3 < length tetra_points
   \<and> orient_simplex_face tetra_points 3 (initial_faces tetra_points ! 3)
        = \<lparr>vtx = [0, 2, 1], cf = [0, 0, - 1], df = 0\<rparr>
   \<and> orient_simplex_face tetra_points 3 \<lparr>vtx = [0, 2, 1], cf = [0, 0, - 1], df = 0\<rparr>
        = \<lparr>vtx = [0, 2, 1], cf = [0, 0, - 1], df = 0\<rparr>
   \<and> list_all (\<lambda>row. length row = 4) big_points
   \<and> orient_new_face big_points 6 (new_face big_points [1, 0, 4])
        = Inr \<lparr>vtx = [1, 4, 0], cf = [0, - 1, 0], df = 0\<rparr>
   \<and> orient_new_face big_points 6 \<lparr>vtx = [1, 4, 0], cf = [0, - 1, 0], df = 0\<rparr>
        = Inr \<lparr>vtx = [1, 4, 0], cf = [0, - 1, 0], df = 0\<rparr>"
proof -
  let ?f2 = "initial_faces tetra_points ! 2"
  let ?f3 = "initial_faces tetra_points ! 3"
  let ?g3 = "\<lparr>vtx = [0, 2, 1], cf = [0, 0, - 1], df = 0\<rparr>"
  let ?n = "new_face big_points [1, 0, 4]"
  let ?m = "\<lparr>vtx = [1, 4, 0], cf = [0, - 1, 0], df = 0\<rparr>"
  have d2: "0 \<le> det_4x4 (A_of tetra_points (vtx ?f2) 2)"
    unfolding initial_face_tetra_2 by (simp add: A_of_3 det_4x4_list tetra_points_def)
  have k2: "orient_simplex_face tetra_points 2 ?f2 = ?f2"
    by (rule mp [OF conjunct1 [OF orientation_fix_idempotent [of tetra_points ?f2 2 0]] d2])
  have l3: "length (vtx ?f3) = 3" and r3: "list_all (\<lambda>row. length row = 4) tetra_points"
    and v3: "list_all (\<lambda>v. v < length tetra_points) (vtx ?f3)" and p3: "3 < length tetra_points"
    unfolding initial_face_tetra_3 by (simp_all add: tetra_points_def)
  have h3: "length (vtx ?f3) = 3 \<and> (\<forall>row\<in>set tetra_points. length row = 4)
        \<and> (\<forall>v\<in>set (vtx ?f3). v < length tetra_points)"
    using l3 r3 v3 by (simp only: list_all_iff)
  have o3: "orient_simplex_face tetra_points 3 ?f3 = ?g3"
    unfolding initial_face_tetra_3 by (simp add: orient_simplex_face_def eval_simps tetra_points_def)
  note t3 = mp [OF conjunct2 [OF conjunct2 [OF orientation_fix_idempotent
          [of tetra_points ?f3 3 0]]] h3]
  have "orient_simplex_face tetra_points 3 (orient_simplex_face tetra_points 3 ?f3)
          = orient_simplex_face tetra_points 3 ?f3"
    by (rule mp [OF conjunct1 [OF t3] p3])
  then have i3: "orient_simplex_face tetra_points 3 ?g3 = ?g3"
    by (simp only: o3)
  have r4: "list_all (\<lambda>row. length row = 4) big_points"
    by (simp add: big_points_def)
  have h4: "length (vtx ?n) = 3 \<and> (\<forall>row\<in>set big_points. length row = 4)
        \<and> (\<forall>v\<in>set (vtx ?n). v < length big_points)"
    by (simp add: vtx_new_face big_points_def)
  have o4: "orient_new_face big_points 6 ?n = Inr ?m"
    by (simp only: new_face_big_points orient_new_face_big_points)
  note t4 = mp [OF conjunct2 [OF conjunct2 [OF orientation_fix_idempotent
          [of big_points ?n 0 6]]] h4]
  have i4: "orient_new_face big_points 6 ?m = Inr ?m"
    by (rule mp [OF spec [OF conjunct2 [OF t4]] o4])
  from d2 k2 l3 r3 v3 p3 o3 i3 r4 o4 i4 show ?thesis
    by (intro conjI)
qed

section \<open>Adding faces and the ceiling on their number\<close>

lemma add_faces_ok:
  "length mesh + length es \<le> CH_MAX_NUM_FACES \<Longrightarrow>
     add_faces points i es mesh = (False, mesh @ map (\<lambda>e. new_face points (e @ [i])) es)"
proof (induction es arbitrary: mesh)
  case Nil
  show ?case by simp
next
  case (Cons e es)
  from Cons.prems have "length (mesh @ [new_face points (e @ [i])]) + length es \<le> CH_MAX_NUM_FACES"
    by simp
  from Cons.IH [OF this] Cons.prems show ?case
    by (simp add: Let_def)
qed

lemma add_faces_abort:
  "length mesh \<le> CH_MAX_NUM_FACES \<Longrightarrow> CH_MAX_NUM_FACES < length mesh + length es \<Longrightarrow>
     add_faces points i es mesh = (True, [])"
proof (induction es arbitrary: mesh)
  case Nil
  then show ?case by simp
next
  case (Cons e es)
  show ?case
  proof (cases "CH_MAX_NUM_FACES < length mesh + 1")
    case True
    then show ?thesis by (simp add: Let_def)
  next
    case False
    then have "length (mesh @ [new_face points (e @ [i])]) \<le> CH_MAX_NUM_FACES"
      by simp
    moreover from Cons.prems(2)
    have "CH_MAX_NUM_FACES < length (mesh @ [new_face points (e @ [i])]) + length es"
      by simp
    ultimately have "add_faces points i es (mesh @ [new_face points (e @ [i])]) = (True, [])"
      by (rule Cons.IH)
    with False show ?thesis
      by (simp add: Let_def)
  qed
qed

lemma add_faces_flag:
  "add_faces points i es mesh = (True, m) \<Longrightarrow> CH_MAX_NUM_FACES < length mesh + length es"
  using add_faces_ok [of mesh es points i] by (cases "length mesh + length es \<le> CH_MAX_NUM_FACES") auto

lemma horizon_nothing_visible:
  "filter (visible_ind p) mesh = [] \<Longrightarrow> horizon p mesh = []"
  by (simp add: horizon_def)

lemma iteration_abort:
  assumes "length mesh \<le> CH_MAX_NUM_FACES"
    and "CH_MAX_NUM_FACES
           < length (filter (\<lambda>f. \<not> visible_ind (take 3 (points ! i)) f) mesh)
             + length (horizon (take 3 (points ! i)) mesh)"
  shows "iteration points i mesh = Inr (True, [])"
proof -
  let ?p = "take 3 (points ! i)"
  let ?kept = "filter (\<lambda>f. \<not> visible_ind ?p f) mesh"
  have k: "length ?kept \<le> CH_MAX_NUM_FACES"
    using assms(1) length_filter_le [of "\<lambda>f. \<not> visible_ind ?p f" mesh] by linarith
  have "filter (visible_ind ?p) mesh \<noteq> []"
  proof
    assume e: "filter (visible_ind ?p) mesh = []"
    then have "horizon ?p mesh = []"
      by (rule horizon_nothing_visible)
    with assms(2) k show False
      by simp
  qed
  moreover have "add_faces points i (horizon ?p mesh) ?kept = (True, [])"
    using k assms(2) by (rule add_faces_abort)
  ultimately show ?thesis
    by (simp add: iteration_def Let_def)
qed

text \<open>
  C6. When, in the pass for some point of the queue, the faces that stay and the faces of
  the horizon together are more than \<open>CH_MAX_NUM_FACES = 50000\<close>, the pass sets the
  abort flag and the main loop stops there, whatever is left in the queue. The routine
  makes its output from the result of the loop: with the flag set the output is the empty
  one (no array of faces, the count \<open>0\<close>) whatever mesh goes with the flag, and only a
  loop that ends without the flag gives faces. The other early exit of the routine, the
  guard on its arguments, gives the empty output as well.
\<close>

theorem face_ceiling_aborts:
  "(main_loop points pre mesh0 = Inr (False, mesh)
      \<and> length mesh \<le> CH_MAX_NUM_FACES
      \<and> CH_MAX_NUM_FACES
           < length (filter (\<lambda>f. \<not> visible_ind (take 3 (points ! i)) f) mesh)
             + length (horizon (take 3 (points ! i)) mesh)
      \<longrightarrow> main_loop points (pre @ i # post) mesh0 = Inr (True, []))
   \<and> hull_output (True, m) = (None, 0)
   \<and> (3 < nVert \<longrightarrow>
        convhull_3d_build R rnd (Some vs) nVert =
          (case main_loop (perturb R rnd vs (nat nVert))
                  (pleft_init vs (perturb R rnd vs (nat nVert)) (nat nVert))
                  (simplex (perturb R rnd vs (nat nVert))) of
             Inl e \<Rightarrow> Inl e
           | Inr (FUCKED, mesh') \<Rightarrow>
               Inr (if FUCKED then (None, 0)
                    else (Some (concat (map vtx mesh')), length mesh'))))
   \<and> (nVert < 3 \<or> in_vertices = None \<longrightarrow>
        convhull_3d_build R rnd in_vertices nVert = Inr (None, 0))"
proof (intro conjI impI)
  assume a: "main_loop points pre mesh0 = Inr (False, mesh)
      \<and> length mesh \<le> CH_MAX_NUM_FACES
      \<and> CH_MAX_NUM_FACES
           < length (filter (\<lambda>f. \<not> visible_ind (take 3 (points ! i)) f) mesh)
             + length (horizon (take 3 (points ! i)) mesh)"
  then have "iteration points i mesh = Inr (True, [])"
    by (intro iteration_abort) simp_all
  then have "main_loop points (i # post) mesh = Inr (True, [])"
    by simp
  with a show "main_loop points (pre @ i # post) mesh0 = Inr (True, [])"
    by (simp add: main_loop_append)
next
  show "hull_output (True, m) = (None, 0)"
    by (simp add: hull_output_def)
next
  assume "3 < nVert"
  then show "convhull_3d_build R rnd (Some vs) nVert =
          (case main_loop (perturb R rnd vs (nat nVert))
                  (pleft_init vs (perturb R rnd vs (nat nVert)) (nat nVert))
                  (simplex (perturb R rnd vs (nat nVert))) of
             Inl e \<Rightarrow> Inl e
           | Inr (FUCKED, mesh') \<Rightarrow>
               Inr (if FUCKED then (None, 0)
                    else (Some (concat (map vtx mesh')), length mesh')))"
    by (simp add: build_unfold hull_output_def split: sum.splits prod.splits)
next
  assume "nVert < 3 \<or> in_vertices = None"
  then show "convhull_3d_build R rnd in_vertices nVert = Inr (None, 0)"
    by (rule build_guard)
qed

lemma visible_big_mesh:
  "\<not> visible_ind (take 3 (big_points ! 4)) \<lparr>vtx = v, cf = [0, 1, 0], df = 0\<rparr>"
  "visible_ind (take 3 (big_points ! 4)) \<lparr>vtx = v, cf = [0, 0, 1], df = 0\<rparr>"
  by (simp_all add: visible_ind_def points_cf_list big_points_def)

lemma filter_big_mesh:
  "filter (\<lambda>f. \<not> visible_ind (take 3 (big_points ! 4)) f) big_mesh
     = replicate 49999 \<lparr>vtx = [0, 1, 3], cf = [0, 1, 0], df = 0\<rparr>"
  "filter (visible_ind (take 3 (big_points ! 4))) big_mesh
     = [\<lparr>vtx = [0, 1, 2], cf = [0, 0, 1], df = 0\<rparr>]"
  by (simp_all add: big_mesh_def visible_big_mesh filter_replicate)

lemma horizon_big_mesh: "horizon (take 3 (big_points ! 4)) big_mesh = replicate 49999 [0, 1]"
  unfolding horizon_def Let_def filter_big_mesh
  by (simp add: horizon_of_visible_def horizon_edge_def f0_row_def ismember_def filter_replicate)

theorem face_ceiling_aborts_witness:
  "main_loop big_points [] big_mesh = Inr (False, big_mesh)
   \<and> length big_mesh \<le> CH_MAX_NUM_FACES
   \<and> CH_MAX_NUM_FACES
        < length (filter (\<lambda>f. \<not> visible_ind (take 3 (big_points ! 4)) f) big_mesh)
          + length (horizon (take 3 (big_points ! 4)) big_mesh)
   \<and> main_loop big_points [4] big_mesh = Inr (True, [])
   \<and> hull_output (True, []) = (None, 0)
   \<and> (3::int) < 4
   \<and> convhull_3d_build 32767 no_noise (Some square) 4
        = (case main_loop (perturb 32767 no_noise square 4)
                  (pleft_init square (perturb 32767 no_noise square 4) 4)
                  (simplex (perturb 32767 no_noise square 4)) of
             Inl e \<Rightarrow> Inl e
           | Inr (FUCKED, mesh') \<Rightarrow>
               Inr (if FUCKED then (None, 0)
                    else (Some (concat (map vtx mesh')), length mesh')))
   \<and> (2::int) < 3
   \<and> convhull_3d_build 32767 no_noise (Some three_points) 2 = Inr (None, 0)"
proof -
  have a: "main_loop big_points [] big_mesh = Inr (False, big_mesh)"
    by simp
  have b: "length big_mesh \<le> CH_MAX_NUM_FACES"
    by (simp add: big_mesh_def CH_MAX_NUM_FACES_def)
  have c: "CH_MAX_NUM_FACES
        < length (filter (\<lambda>f. \<not> visible_ind (take 3 (big_points ! 4)) f) big_mesh)
          + length (horizon (take 3 (big_points ! 4)) big_mesh)"
    by (simp add: filter_big_mesh horizon_big_mesh CH_MAX_NUM_FACES_def)
  have n: "nat 4 = (4::nat)"
    by simp
  note t = face_ceiling_aborts [of big_points "[]" big_mesh big_mesh 4 "[]" "[]" 4 32767
      no_noise square "Some three_points", unfolded n]
  note u = face_ceiling_aborts [of big_points "[]" big_mesh big_mesh 4 "[]" "[]" 2 32767
      no_noise square "Some three_points"]
  from a b c have "main_loop big_points [] big_mesh = Inr (False, big_mesh)
      \<and> length big_mesh \<le> CH_MAX_NUM_FACES
      \<and> CH_MAX_NUM_FACES
           < length (filter (\<lambda>f. \<not> visible_ind (take 3 (big_points ! 4)) f) big_mesh)
             + length (horizon (take 3 (big_points ! 4)) big_mesh)"
    by (intro conjI)
  then have d: "main_loop big_points ([] @ 4 # []) big_mesh = Inr (True, [])"
    by (rule mp [OF conjunct1 [OF t]])
  have e: "hull_output (True, []) = (None, 0)"
    by (rule conjunct1 [OF conjunct2 [OF t]])
  have f: "(3::int) < 4"
    by simp
  have g: "convhull_3d_build 32767 no_noise (Some square) 4
        = (case main_loop (perturb 32767 no_noise square 4)
                  (pleft_init square (perturb 32767 no_noise square 4) 4)
                  (simplex (perturb 32767 no_noise square 4)) of
             Inl e \<Rightarrow> Inl e
           | Inr (FUCKED, mesh') \<Rightarrow>
               Inr (if FUCKED then (None, 0)
                    else (Some (concat (map vtx mesh')), length mesh')))"
    by (rule mp [OF conjunct1 [OF conjunct2 [OF conjunct2 [OF t]]] f])
  have h: "(2::int) < 3"
    by simp
  then have h': "(2::int) < 3 \<or> Some three_points = None"
    by (rule disjI1)
  have k: "convhull_3d_build 32767 no_noise (Some three_points) 2 = Inr (None, 0)"
    by (rule mp [OF conjunct2 [OF conjunct2 [OF conjunct2 [OF u]]] h'])
  from d have d': "main_loop big_points [4] big_mesh = Inr (True, [])"
    by (simp only: append_Nil)
  from a b c d' e f g h k show ?thesis
    by (intro conjI)
qed

section \<open>The horizon and the new faces\<close>

lemma filter_zip_flags:
  "map fst (filter (\<lambda>(a, fl). Q fl) (zip xs (map h xs))) = filter (\<lambda>a. Q (h a)) xs"
  by (induction xs) simp_all

lemma horizon_edge_filter: "horizon_edge face_v g = filter (\<lambda>a. a \<in> set face_v) g"
proof -
  have "horizon_edge face_v g
      = filter (\<lambda>a. (if a \<in> set face_v then 1 else 0) \<noteq> (0::nat)) g"
    unfolding horizon_edge_def f0_row_def ismember_def set_sort
    by (rule filter_zip_flags)
  also have "\<dots> = filter (\<lambda>a. a \<in> set face_v) g"
    by (rule filter_cong) simp_all
  finally show ?thesis .
qed

lemma sum_f0_row: "distinct g \<Longrightarrow> sum_list (f0_row face_v g) = card (set g \<inter> set face_v)"
proof (induction g)
  case Nil
  show ?case by (simp add: f0_row_def ismember_def)
next
  case (Cons a g)
  then have ih: "sum_list (f0_row face_v g) = card (set g \<inter> set face_v)" and a: "a \<notin> set g"
    by simp_all
  show ?case
  proof (cases "a \<in> set face_v")
    case True
    then have "set (a # g) \<inter> set face_v = insert a (set g \<inter> set face_v)"
      by auto
    moreover have "a \<notin> set g \<inter> set face_v"
      using a by simp
    ultimately have "card (set (a # g) \<inter> set face_v) = Suc (card (set g \<inter> set face_v))"
      by simp
    with True ih show ?thesis
      by (simp add: f0_row_def ismember_def)
  next
    case False
    then have "set (a # g) \<inter> set face_v = set g \<inter> set face_v"
      by auto
    with False ih show ?thesis
      by (simp add: f0_row_def ismember_def)
  qed
qed

lemma horizon_of_visible_char:
  assumes "\<forall>g\<in>set nonvisible_faces. distinct g"
  shows "horizon_of_visible nonvisible_faces face_v =
     map (\<lambda>u. filter (\<lambda>a. a \<in> set face_v) u)
       (filter (\<lambda>u. card (set u \<inter> set face_v) = 2) nonvisible_faces)"
proof -
  have "filter (\<lambda>g. sum_list (f0_row face_v g) = 3 - 1) nonvisible_faces
      = filter (\<lambda>u. card (set u \<inter> set face_v) = 2) nonvisible_faces"
    using assms by (intro filter_cong refl) (simp add: sum_f0_row)
  then show ?thesis
    by (simp add: horizon_of_visible_def horizon_edge_filter)
qed

lemma horizon_char:
  assumes "\<forall>f\<in>set mesh. distinct (vtx f)"
  shows "horizon p mesh =
     concat (map (\<lambda>v. map (\<lambda>u. filter (\<lambda>a. a \<in> set (vtx v)) u)
                    (filter (\<lambda>u. card (set u \<inter> set (vtx v)) = 2)
                       (map vtx (filter (\<lambda>f. \<not> visible_ind p f) mesh))))
              (filter (visible_ind p) mesh))"
proof -
  have "\<forall>g\<in>set (map vtx (filter (\<lambda>f. \<not> visible_ind p f) mesh)). distinct g"
    using assms by simp
  then show ?thesis
    by (simp add: horizon_def horizon_of_visible_char)
qed

lemma length_shared:
  assumes "distinct u"
  shows "length (filter (\<lambda>a. a \<in> S) u) = card (set u \<inter> S)"
proof -
  have "distinct (filter (\<lambda>a. a \<in> S) u)"
    using assms by simp
  then have "card (set (filter (\<lambda>a. a \<in> S) u)) = length (filter (\<lambda>a. a \<in> S) u)"
    by (rule distinct_card)
  moreover have "set (filter (\<lambda>a. a \<in> S) u) = set u \<inter> S"
    by auto
  ultimately show ?thesis
    by simp
qed

lemma horizon_edge_length:
  assumes "\<forall>f\<in>set mesh. distinct (vtx f)" and "e \<in> set (horizon p mesh)"
  shows "length e = 2"
proof -
  from assms(2) have "\<exists>v u. v \<in> set mesh \<and> u \<in> set mesh
      \<and> card (set (vtx u) \<inter> set (vtx v)) = 2
      \<and> e = filter (\<lambda>a. a \<in> set (vtx v)) (vtx u)"
    unfolding horizon_char [OF assms(1)] by auto
  then obtain v u where "v \<in> set mesh" and "u \<in> set mesh"
    and "card (set (vtx u) \<inter> set (vtx v)) = 2"
    and "e = filter (\<lambda>a. a \<in> set (vtx v)) (vtx u)"
    by blast
  with assms(1) show ?thesis
    by (simp add: length_shared)
qed

lemma add_faces_False:
  "add_faces points i es mesh = (False, m1) \<Longrightarrow>
     m1 = mesh @ map (\<lambda>e. new_face points (e @ [i])) es"
proof (induction es arbitrary: mesh)
  case Nil
  then show ?case by simp
next
  case (Cons e es)
  from Cons.prems have "add_faces points i es (mesh @ [new_face points (e @ [i])]) = (False, m1)"
    by (simp add: Let_def split: if_splits)
  from Cons.IH [OF this] show ?case
    by simp
qed

lemma add_faces_True: "add_faces points i es mesh = (True, m1) \<Longrightarrow> m1 = []"
  by (induction es arbitrary: mesh) (simp_all add: Let_def split: if_splits)

lemma orient_new_face_cases:
  "orient_new_face points nFaces f = Inr g \<Longrightarrow> g = f \<or> g = flip_face f"
  by (auto simp: orient_new_face_def split: sum.splits list.splits if_splits)

lemma orient_new_faces_cases:
  "orient_new_faces points nFaces fs = Inr gs \<Longrightarrow>
     list_all2 (\<lambda>f g. g = f \<or> g = flip_face f) fs gs"
proof (induction fs arbitrary: gs)
  case Nil
  then show ?case by simp
next
  case (Cons f fs)
  from Cons.prems obtain g gs' where g: "orient_new_face points nFaces f = Inr g"
    and gs': "orient_new_faces points nFaces fs = Inr gs'" and gs: "gs = g # gs'"
    by (auto split: sum.splits)
  from orient_new_face_cases [OF g] Cons.IH [OF gs'] show ?case
    by (simp add: gs)
qed

lemma iteration_completed:
  assumes "iteration points i mesh = Inr (False, mesh')"
    and "filter (visible_ind (take 3 (points ! i))) mesh \<noteq> []"
  shows "\<exists>new. mesh' = filter (\<lambda>f. \<not> visible_ind (take 3 (points ! i)) f) mesh @ new
     \<and> list_all2 (\<lambda>f g. g = f \<or> g = flip_face f)
         (map (\<lambda>e. new_face points (e @ [i])) (horizon (take 3 (points ! i)) mesh)) new"
proof -
  let ?p = "take 3 (points ! i)"
  let ?kept = "filter (\<lambda>f. \<not> visible_ind ?p f) mesh"
  let ?hor = "horizon ?p mesh"
  obtain F m1 where a: "add_faces points i ?hor ?kept = (F, m1)"
    by (cases "add_faces points i ?hor ?kept")
  from assms a obtain oriented where
    o: "orient_new_faces points (length m1) (drop (length ?kept) m1) = Inr oriented"
    and F: "F = False" and m: "mesh' = take (length ?kept) m1 @ oriented"
    by (auto simp: iteration_def Let_def split: sum.splits)
  from a F have m1: "m1 = ?kept @ map (\<lambda>e. new_face points (e @ [i])) ?hor"
    by (simp add: add_faces_False)
  from orient_new_faces_cases [OF o] m show ?thesis
    by (simp add: m1)
qed

lemma iteration_aborted:
  assumes "iteration points i mesh = Inr (True, m)"
  shows "m = [] \<and> CH_MAX_NUM_FACES
           < length (filter (\<lambda>f. \<not> visible_ind (take 3 (points ! i)) f) mesh)
             + length (horizon (take 3 (points ! i)) mesh)"
proof -
  let ?p = "take 3 (points ! i)"
  let ?kept = "filter (\<lambda>f. \<not> visible_ind ?p f) mesh"
  let ?hor = "horizon ?p mesh"
  obtain F m1 where a: "add_faces points i ?hor ?kept = (F, m1)"
    by (cases "add_faces points i ?hor ?kept")
  from assms a obtain oriented where
    o: "orient_new_faces points (length m1) (drop (length ?kept) m1) = Inr oriented"
    and F: "F = True" and m: "m = take (length ?kept) m1 @ oriented"
    by (auto simp: iteration_def Let_def split: sum.splits if_splits)
  from a F have m1: "m1 = []"
    by (simp add: add_faces_True)
  from a F have "CH_MAX_NUM_FACES < length ?kept + length ?hor"
    by (simp add: add_faces_flag)
  with o m m1 show ?thesis
    by simp
qed

lemma set_vtx_new:
  assumes "length e = 2" and "g = new_face points (e @ [i]) \<or> g = flip_face (new_face points (e @ [i]))"
  shows "set (vtx g) = set e \<union> {i}"
proof -
  from assms(1) obtain a b where e: "e = [a, b]"
    by (auto simp: length_Suc_conv numeral_2_eq_2)
  from assms(2) show ?thesis
    by (auto simp: e vtx_new_face flip_face_def)
qed

text \<open>
  C5 (amended). In a pass with a visible face, over a mesh whose faces have distinct
  vertices, the horizon is the list of the edges between a visible face and a
  not-visible face that have exactly two vertices in common, one edge for each such
  pair of faces, each edge being the two common vertices in the order of the
  not-visible face. When the pass completes without the abort flag, the mesh after it
  is the not-visible faces followed by one new face for each horizon edge, in the order of
  the horizon: the face of the edge's two vertices and the new point, or that face
  flipped by the orientation fix. The flag is set, with nothing left of the mesh, only
  when the kept faces and the horizon edges together are more than \<open>CH_MAX_NUM_FACES\<close>.
\<close>

theorem horizon_and_new_faces:
  assumes "\<forall>f\<in>set mesh. distinct (vtx f)"
  shows "horizon p mesh =
           concat (map (\<lambda>v. map (\<lambda>u. filter (\<lambda>a. a \<in> set (vtx v)) u)
                          (filter (\<lambda>u. card (set u \<inter> set (vtx v)) = 2)
                             (map vtx (filter (\<lambda>f. \<not> visible_ind p f) mesh))))
                    (filter (visible_ind p) mesh))
       \<and> (\<forall>e\<in>set (horizon p mesh). length e = 2)
       \<and> (\<forall>mesh'. iteration points i mesh = Inr (False, mesh')
              \<and> filter (visible_ind (take 3 (points ! i))) mesh \<noteq> [] \<longrightarrow>
            (\<exists>new. mesh' = filter (\<lambda>f. \<not> visible_ind (take 3 (points ! i)) f) mesh @ new
               \<and> length new = length (horizon (take 3 (points ! i)) mesh)
               \<and> (\<forall>j<length new.
                     (new ! j = new_face points (horizon (take 3 (points ! i)) mesh ! j @ [i])
                      \<or> new ! j
                          = flip_face (new_face points (horizon (take 3 (points ! i)) mesh ! j @ [i])))
                     \<and> set (vtx (new ! j))
                          = set (horizon (take 3 (points ! i)) mesh ! j) \<union> {i})))
       \<and> (\<forall>m. iteration points i mesh = Inr (True, m) \<longrightarrow>
            m = [] \<and> CH_MAX_NUM_FACES
              < length (filter (\<lambda>f. \<not> visible_ind (take 3 (points ! i)) f) mesh)
                + length (horizon (take 3 (points ! i)) mesh))"
proof (intro conjI allI impI ballI)
  show "horizon p mesh =
           concat (map (\<lambda>v. map (\<lambda>u. filter (\<lambda>a. a \<in> set (vtx v)) u)
                          (filter (\<lambda>u. card (set u \<inter> set (vtx v)) = 2)
                             (map vtx (filter (\<lambda>f. \<not> visible_ind p f) mesh))))
                    (filter (visible_ind p) mesh))"
    by (rule horizon_char [OF assms])
next
  fix e assume "e \<in> set (horizon p mesh)"
  with assms show "length e = 2"
    by (rule horizon_edge_length)
next
  fix m assume "iteration points i mesh = Inr (True, m)"
  then show "m = []" and "CH_MAX_NUM_FACES
              < length (filter (\<lambda>f. \<not> visible_ind (take 3 (points ! i)) f) mesh)
                + length (horizon (take 3 (points ! i)) mesh)"
    by (simp_all add: iteration_aborted)
next
  fix mesh'
  let ?p = "take 3 (points ! i)"
  let ?hor = "horizon ?p mesh"
  assume "iteration points i mesh = Inr (False, mesh') \<and> filter (visible_ind ?p) mesh \<noteq> []"
  then obtain new where m: "mesh' = filter (\<lambda>f. \<not> visible_ind ?p f) mesh @ new"
    and l: "list_all2 (\<lambda>f g. g = f \<or> g = flip_face f)
         (map (\<lambda>e. new_face points (e @ [i])) ?hor) new"
    using iteration_completed [of points i mesh mesh'] by blast
  from l have len: "length new = length ?hor"
    by (simp add: list_all2_lengthD [symmetric])
  have each: "(new ! j = new_face points (?hor ! j @ [i])
                \<or> new ! j = flip_face (new_face points (?hor ! j @ [i])))
              \<and> set (vtx (new ! j)) = set (?hor ! j) \<union> {i}" if "j < length new" for j
  proof -
    from that len have j: "j < length ?hor"
      by simp
    with l have c: "new ! j = new_face points (?hor ! j @ [i])
        \<or> new ! j = flip_face (new_face points (?hor ! j @ [i]))"
      by (simp add: list_all2_conv_all_nth)
    from j have "?hor ! j \<in> set ?hor"
      by simp
    with assms have "length (?hor ! j) = 2"
      by (rule horizon_edge_length)
    from set_vtx_new [OF this c] c show ?thesis
      by simp
  qed
  from m len each
  show "\<exists>new. mesh' = filter (\<lambda>f. \<not> visible_ind ?p f) mesh @ new
               \<and> length new = length ?hor
               \<and> (\<forall>j<length new.
                     (new ! j = new_face points (?hor ! j @ [i])
                      \<or> new ! j = flip_face (new_face points (?hor ! j @ [i])))
                     \<and> set (vtx (new ! j)) = set (?hor ! j) \<union> {i})"
    by blast
qed

lemma horizon_flat7_first:
  "horizon (take 3 (flat7_points ! 6)) flat7_simplex = [[2, 3], [1, 3], [1, 2]]"
  by (simp add: flat7_points_def) (simp add: horizon_defs flat7_simplex_def)

lemma visible_flat7_first:
  "filter (visible_ind (take 3 (flat7_points ! 6))) flat7_simplex
     = [\<lparr>vtx = [1, 2, 3], cf = [0, 0, 1], df = 0\<rparr>]"
  by (simp add: flat7_points_def) (simp add: visible_ind_def points_cf_list flat7_simplex_def)

theorem horizon_and_new_faces_witness:
  "list_all (\<lambda>f. distinct (vtx f)) flat7_simplex
   \<and> iteration flat7_points 6 flat7_simplex = Inr (False, flat7_mesh1)
   \<and> filter (visible_ind (take 3 (flat7_points ! 6))) flat7_simplex \<noteq> []
   \<and> horizon (take 3 (flat7_points ! 6)) flat7_simplex = [[2, 3], [1, 3], [1, 2]]
   \<and> map vtx flat7_mesh1 = [[0, 2, 3], [0, 1, 3], [0, 1, 2], [2, 6, 3], [1, 6, 3], [1, 6, 2]]
   \<and> (\<exists>new. flat7_mesh1
          = filter (\<lambda>f. \<not> visible_ind (take 3 (flat7_points ! 6)) f) flat7_simplex @ new
        \<and> length new = 3)"
proof -
  have d: "list_all (\<lambda>f. distinct (vtx f)) flat7_simplex"
    by (simp add: flat7_simplex_def)
  then have d': "\<forall>f\<in>set flat7_simplex. distinct (vtx f)"
    by (simp only: list_all_iff)
  have v: "filter (visible_ind (take 3 (flat7_points ! 6))) flat7_simplex \<noteq> []"
    by (simp only: visible_flat7_first) simp
  have m: "map vtx flat7_mesh1 = [[0, 2, 3], [0, 1, 3], [0, 1, 2], [2, 6, 3], [1, 6, 3], [1, 6, 2]]"
    by (simp add: flat7_mesh1_def)
  note t = horizon_and_new_faces [OF d', of "take 3 (flat7_points ! 6)" flat7_points 6]
  from t have "\<forall>mesh'. iteration flat7_points 6 flat7_simplex = Inr (False, mesh')
        \<and> filter (visible_ind (take 3 (flat7_points ! 6))) flat7_simplex \<noteq> [] \<longrightarrow>
      (\<exists>new. mesh' = filter (\<lambda>f. \<not> visible_ind (take 3 (flat7_points ! 6)) f) flat7_simplex @ new
         \<and> length new = length (horizon (take 3 (flat7_points ! 6)) flat7_simplex))"
    by blast
  with iteration_flat7_first v
  have "\<exists>new. flat7_mesh1
          = filter (\<lambda>f. \<not> visible_ind (take 3 (flat7_points ! 6)) f) flat7_simplex @ new
        \<and> length new = length (horizon (take 3 (flat7_points ! 6)) flat7_simplex)"
    by blast
  then have "\<exists>new. flat7_mesh1
          = filter (\<lambda>f. \<not> visible_ind (take 3 (flat7_points ! 6)) f) flat7_simplex @ new
        \<and> length new = 3"
    by (simp only: horizon_flat7_first) (simp add: numeral_3_eq_3)
  with d iteration_flat7_first v horizon_flat7_first m show ?thesis
    by (intro conjI)
qed

text \<open>
  The claim as first stated promises a new face for every horizon edge in every pass
  with a visible face. In the pass for the point \<open>4\<close> over \<open>big_mesh\<close> one face is
  visible and the horizon has \<open>49999\<close> edges; the second new face takes the count past
  \<open>50000\<close>, the pass sets the abort flag, and no face is left.
\<close>

theorem horizon_edges_without_faces:
  "filter (visible_ind (take 3 (big_points ! 4))) big_mesh
     = [\<lparr>vtx = [0, 1, 2], cf = [0, 0, 1], df = 0\<rparr>]
   \<and> list_all (\<lambda>f. distinct (vtx f)) big_mesh
   \<and> length big_mesh = 50000
   \<and> horizon (take 3 (big_points ! 4)) big_mesh = replicate 49999 [0, 1]
   \<and> iteration big_points 4 big_mesh = Inr (True, [])"
proof -
  have "length big_mesh \<le> CH_MAX_NUM_FACES"
    by (simp add: big_mesh_def CH_MAX_NUM_FACES_def)
  moreover have "CH_MAX_NUM_FACES
        < length (filter (\<lambda>f. \<not> visible_ind (take 3 (big_points ! 4)) f) big_mesh)
          + length (horizon (take 3 (big_points ! 4)) big_mesh)"
    by (simp add: filter_big_mesh horizon_big_mesh CH_MAX_NUM_FACES_def)
  ultimately have "iteration big_points 4 big_mesh = Inr (True, [])"
    by (rule iteration_abort)
  moreover have "list_all (\<lambda>f. distinct (vtx f)) big_mesh"
    by (simp add: big_mesh_def list_all_iff)
  moreover have "length big_mesh = 50000"
    by (simp add: big_mesh_def)
  ultimately show ?thesis
    by (simp add: filter_big_mesh horizon_big_mesh)
qed

subsection \<open>Faces of a mesh built by the routine have distinct vertices\<close>

lemma horizon_edge_props:
  assumes "\<forall>f\<in>set mesh. distinct (vtx f)" and "e \<in> set (horizon p mesh)"
  shows "distinct e \<and> (\<exists>u\<in>set mesh. set e \<subseteq> set (vtx u))"
proof -
  from assms(2) have "\<exists>v u. v \<in> set mesh \<and> u \<in> set mesh
      \<and> e = filter (\<lambda>a. a \<in> set (vtx v)) (vtx u)"
    unfolding horizon_char [OF assms(1)] by auto
  then obtain v u where "v \<in> set mesh" and u: "u \<in> set mesh"
    and e: "e = filter (\<lambda>a. a \<in> set (vtx v)) (vtx u)"
    by blast
  from u assms(1) have "distinct e"
    by (simp add: e)
  moreover have "set e \<subseteq> set (vtx u)"
    by (auto simp: e)
  ultimately show ?thesis
    using u by blast
qed

lemma new_face_distinct:
  assumes "length e = 2" and "distinct e" and "i \<notin> set e"
    and "g = new_face points (e @ [i]) \<or> g = flip_face (new_face points (e @ [i]))"
  shows "distinct (vtx g)"
proof -
  from assms(1) obtain a b where e: "e = [a, b]"
    by (auto simp: length_Suc_conv numeral_2_eq_2)
  from assms(2,3,4) show ?thesis
    by (auto simp: e vtx_new_face flip_face_def)
qed

lemma iteration_vertices:
  assumes "iteration points i mesh = Inr (F, mesh')"
    and "\<forall>f\<in>set mesh. distinct (vtx f) \<and> i \<notin> set (vtx f)"
  shows "\<forall>g\<in>set mesh'. distinct (vtx g) \<and> set (vtx g) \<subseteq> (\<Union>f\<in>set mesh. set (vtx f)) \<union> {i}"
proof (cases "filter (visible_ind (take 3 (points ! i))) mesh = []")
  case True
  with assms(1) have "mesh' = mesh"
    by (simp add: iteration_def)
  with assms(2) show ?thesis
    by auto
next
  case False
  let ?p = "take 3 (points ! i)"
  let ?hor = "horizon ?p mesh"
  have d: "\<forall>f\<in>set mesh. distinct (vtx f)"
    using assms(2) by simp
  show ?thesis
  proof (cases F)
    case True
    with assms(1) have "mesh' = []"
      by (simp add: iteration_aborted)
    then show ?thesis
      by simp
  next
    case F: False
    with assms(1) have "iteration points i mesh = Inr (False, mesh')"
      by simp
    from iteration_completed [OF this False]
    obtain new where m: "mesh' = filter (\<lambda>f. \<not> visible_ind ?p f) mesh @ new"
      and l: "list_all2 (\<lambda>f g. g = f \<or> g = flip_face f)
         (map (\<lambda>e. new_face points (e @ [i])) ?hor) new"
      by blast
    have new: "distinct (vtx g) \<and> set (vtx g) \<subseteq> (\<Union>f\<in>set mesh. set (vtx f)) \<union> {i}"
      if "g \<in> set new" for g
    proof -
      from that obtain j where j: "j < length new" and g: "g = new ! j"
        by (auto simp: in_set_conv_nth)
      from l have len: "length new = length ?hor"
        by (simp add: list_all2_lengthD [symmetric])
      with j l g have c: "g = new_face points (?hor ! j @ [i])
          \<or> g = flip_face (new_face points (?hor ! j @ [i]))"
        by (simp add: list_all2_conv_all_nth)
      from j len have mem: "?hor ! j \<in> set ?hor"
        by simp
      from horizon_edge_length [OF d mem] have l2: "length (?hor ! j) = 2" .
      from horizon_edge_props [OF d mem] obtain u where de: "distinct (?hor ! j)"
        and u: "u \<in> set mesh" and sub: "set (?hor ! j) \<subseteq> set (vtx u)"
        by blast
      from u assms(2) sub have ni: "i \<notin> set (?hor ! j)"
        by auto
      have "distinct (vtx g)"
        by (rule new_face_distinct [OF l2 de ni c])
      moreover have "set (vtx g) = set (?hor ! j) \<union> {i}"
        by (rule set_vtx_new [OF l2 c])
      ultimately show ?thesis
        using u sub by auto
    qed
    show ?thesis
    proof
      fix g assume "g \<in> set mesh'"
      then consider "g \<in> set mesh" | "g \<in> set new"
        by (auto simp: m)
      then show "distinct (vtx g) \<and> set (vtx g) \<subseteq> (\<Union>f\<in>set mesh. set (vtx f)) \<union> {i}"
      proof cases
        case 1
        with d show ?thesis by auto
      next
        case 2
        then show ?thesis by (rule new)
      qed
    qed
  qed
qed

lemma main_loop_distinct:
  assumes "main_loop points pleft mesh = Inr (F, mesh')" and "distinct pleft"
    and "\<forall>f\<in>set mesh. distinct (vtx f) \<and> set (vtx f) \<inter> set pleft = {}"
  shows "\<forall>g\<in>set mesh'. distinct (vtx g)"
  using assms
proof (induction pleft arbitrary: mesh)
  case Nil
  then show ?case by simp
next
  case (Cons i pleft)
  from Cons.prems(1) obtain F1 m1 where it: "iteration points i mesh = Inr (F1, m1)"
    by (auto split: sum.splits)
  have pre: "\<forall>f\<in>set mesh. distinct (vtx f) \<and> i \<notin> set (vtx f)"
    using Cons.prems(3) by auto
  note v = iteration_vertices [OF it pre]
  show ?case
  proof (cases F1)
    case True
    with Cons.prems(1) it have "mesh' = m1"
      by simp
    with v show ?thesis
      by simp
  next
    case False
    with Cons.prems(1) it have r: "main_loop points pleft m1 = Inr (F, mesh')"
      by simp
    have "\<forall>f\<in>set m1. distinct (vtx f) \<and> set (vtx f) \<inter> set pleft = {}"
    proof
      fix f assume f: "f \<in> set m1"
      with v have "distinct (vtx f)" and s: "set (vtx f) \<subseteq> (\<Union>f\<in>set mesh. set (vtx f)) \<union> {i}"
        by simp_all
      have "set (vtx f) \<inter> set pleft = {}"
      proof (rule ccontr)
        assume "set (vtx f) \<inter> set pleft \<noteq> {}"
        then obtain a where a: "a \<in> set (vtx f)" "a \<in> set pleft"
          by auto
        with Cons.prems(2) have "a \<noteq> i"
          by auto
        with s a(1) obtain f' where "f' \<in> set mesh" "a \<in> set (vtx f')"
          by auto
        with Cons.prems(3) a(2) show False
          by auto
      qed
      with \<open>distinct (vtx f)\<close> show "distinct (vtx f) \<and> set (vtx f) \<inter> set pleft = {}"
        by simp
    qed
    with r Cons.prems(2) show ?thesis
      by (intro Cons.IH) simp_all
  qed
qed

lemma simplex_vertices:
  "\<forall>f\<in>set (simplex points). distinct (vtx f) \<and> set (vtx f) \<subseteq> {0, 1, 2, 3}"
  by (simp add: simplex_def initial_faces_def orient_simplex_face_def vtx_new_face flip_face_def
      Let_def)

lemma reached_mesh_distinct:
  assumes "pleft_init vs points n = pre @ post"
    and "main_loop points pre (simplex points) = Inr (F, mesh)"
  shows "\<forall>f\<in>set mesh. distinct (vtx f)"
proof -
  have "distinct (pre @ post)" and s: "set (pre @ post) = {4..<n}"
    using pleft_init_distinct [of vs points n] pleft_init_set [of vs points n]
    by (simp_all only: assms(1))
  then have d: "distinct pre" and p: "set pre \<subseteq> {4..<n}"
    by auto
  have "\<forall>f\<in>set (simplex points). distinct (vtx f) \<and> set (vtx f) \<inter> set pre = {}"
  proof
    fix f assume "f \<in> set (simplex points)"
    with simplex_vertices [of points] have "distinct (vtx f)" and "set (vtx f) \<subseteq> {0, 1, 2, 3}"
      by simp_all
    with p show "distinct (vtx f) \<and> set (vtx f) \<inter> set pre = {}"
      by fastforce
  qed
  with assms(2) d show ?thesis
    by (intro main_loop_distinct)
qed

end
